theory Spec2Isabelle
  imports Main
begin

section \<open>The quick start program for Azure blob storage (main.go)\<close>

text \<open>
  The program is one file, \<^verbatim>\<open>main.go\<close>: a \<^verbatim>\<open>Credentials\<close> struct, the helpers
  \<^verbatim>\<open>randomString\<close> and \<^verbatim>\<open>handleErrors\<close>, and \<^verbatim>\<open>main\<close>, which calls the operating
  system and the storage SDK (package \<^verbatim>\<open>azblob\<close>) in a fixed order. The model is a
  function from an environment, which fixes what every such call returns, to the
  sequence of calls and outputs the program makes and the way it ends.
\<close>

subsection \<open>Errors\<close>

text \<open>
  A Go \<^verbatim>\<open>error\<close> value is \<^verbatim>\<open>nil\<close> or an error: \<open>error option\<close>. The only thing the
  program asks of an error, beyond its text, is whether it is an \<^verbatim>\<open>azblob.StorageError\<close>
  and then what its \<^verbatim>\<open>ServiceCode()\<close> is.
\<close>

type_synonym ServiceCodeType = string

definition ServiceCodeContainerAlreadyExists :: ServiceCodeType where
  "ServiceCodeContainerAlreadyExists = ''ContainerAlreadyExists''"

datatype error =
    StorageError ServiceCodeType string
  | OtherError string

fun Error :: "error \<Rightarrow> string" where
  "Error (StorageError code msg) = msg"
| "Error (OtherError msg) = msg"

text \<open>The type assertion \<^verbatim>\<open>serr, ok := err.(azblob.StorageError)\<close> with \<^verbatim>\<open>serr.ServiceCode()\<close>.\<close>

fun ServiceCode :: "error \<Rightarrow> ServiceCodeType option" where
  "ServiceCode (StorageError code msg) = Some code"
| "ServiceCode (OtherError msg) = None"

subsection \<open>Events and outcomes\<close>

datatype count = CountToEnd | Count nat

text \<open>
  A listing marker: \<open>None\<close> is the zero value \<^verbatim>\<open>azblob.Marker{}\<close> the loop starts from,
  before any call; \<open>Some tok\<close> is a marker holding the continuation token \<open>tok\<close>.
\<close>

type_synonym Marker = "string option"

datatype event =
    Stdout string
  | Log string
  | OsOpen string
  | ReadAll string
  | NewSharedKeyCredential string string
  | UrlParse string
  | ContainerCreate string
  | WriteFile string string nat
  | UploadFileToBlockBlob string string nat nat
  | ListBlobsFlatSegment string Marker
  | BlobDownload string string nat count
  | Body nat
  | ReadFrom string
  | StdinReadBytes
  | ContainerDelete string
  | FileClose string
  | OsRemove string

text \<open>
  A run ends by \<^verbatim>\<open>main\<close> returning (\<open>Normal\<close>), by \<^verbatim>\<open>log.Fatal\<close> (which logs and
  calls \<^verbatim>\<open>os.Exit(1)\<close>: \<open>Fatal\<close>) or by a nil pointer dereference (\<open>Panic\<close>).
\<close>

datatype outcome = Normal | Fatal | Panic

type_synonym run = "event list \<times> outcome"

definition andThen :: "run \<Rightarrow> run \<Rightarrow> run" where
  "andThen r k = (case r of (t, Normal) \<Rightarrow> (t @ fst k, snd k) | (t, s) \<Rightarrow> (t, s))"

fun steps :: "run list \<Rightarrow> run" where
  "steps [] = ([], Normal)"
| "steps (r # rs) = andThen r (steps rs)"

definition say :: "string \<Rightarrow> run" where
  "say s = ([Stdout s], Normal)"

definition call :: "event \<Rightarrow> run" where
  "call e = ([e], Normal)"

definition log_Fatal :: "string \<Rightarrow> run" where
  "log_Fatal msg = ([Log msg], Fatal)"

definition panic :: run where
  "panic = ([], Panic)"

subsection \<open>handleErrors\<close>

definition handleErrors :: "error option \<Rightarrow> run" where
  "handleErrors err =
     (case err of
        None \<Rightarrow> ([], Normal)
      | Some e \<Rightarrow>
          (case ServiceCode e of
             Some code \<Rightarrow>
               if code = ServiceCodeContainerAlreadyExists
               then say ''Received 409. Container already exists\<newline>''
               else log_Fatal (Error e)
           | None \<Rightarrow> log_Fatal (Error e)))"

subsection \<open>The environment\<close>

record Credentials =
  AzureStorageAccountName :: string
  AzureStorageAccountKey :: string

record ListBlobsFlatSegmentResponse =
  NextMarker :: Marker
  BlobItems :: "string list"

text \<open>
  A download response is kept as what reading its \<^verbatim>\<open>Body(o)\<close> to the end delivers, for
  the \<^verbatim>\<open>MaxRetryRequests\<close> of \<^verbatim>\<open>o\<close>: the bytes that reach the buffer and the error
  \<^verbatim>\<open>ReadFrom\<close> returns.
\<close>

datatype DownloadResponse = DownloadResponse (read_body: "nat \<Rightarrow> string \<times> error option")

text \<open>
  What each call of the program into the operating system, the standard library and the
  SDK returns. \<open>json_decode\<close> gives the fields \<^verbatim>\<open>json.Unmarshal\<close> leaves in a zero-valued
  \<^verbatim>\<open>Credentials\<close> (whose fields are tagged \<^verbatim>\<open>azure_storage_account_name\<close> and
  \<^verbatim>\<open>azure_storage_access_key\<close>) for a non-empty input; \<open>randomString\<close> gives the result
  of the n-th call of \<^verbatim>\<open>randomString()\<close>; \<open>list_blobs\<close> gives the result of the n-th
  call of \<^verbatim>\<open>ListBlobsFlatSegment\<close> for the marker passed; \<open>NotDone\<close> is the SDK's
  predicate on markers. An error of \<^verbatim>\<open>os.Open\<close> or \<^verbatim>\<open>ioutil.WriteFile\<close> is an error
  of the operating system, never an \<^verbatim>\<open>azblob.StorageError\<close>: the environment gives its
  text only.
\<close>

record env =
  credentials_open :: "string option"
  credentials_bytes :: string
  json_decode :: "string \<Rightarrow> Credentials"
  shared_key_credential :: "string \<Rightarrow> string \<Rightarrow> error option"
  randomString :: "nat \<Rightarrow> string"
  url_parse_ok :: "string \<Rightarrow> bool"
  container_create :: "error option"
  write_file :: "string option"
  file_open :: "string option"
  upload_file :: "error option"
  NotDone :: "Marker \<Rightarrow> bool"
  list_blobs :: "nat \<Rightarrow> Marker \<Rightarrow> ListBlobsFlatSegmentResponse option \<times> error option"
  blob_download :: "DownloadResponse option \<times> error option"
  container_delete :: "error option"

definition os_error :: "string option \<Rightarrow> error option" where
  "os_error e = map_option OtherError e"

subsection \<open>main, stage by stage\<close>

text \<open>
  Lines 48 to 56. A failed \<^verbatim>\<open>os.Open\<close> is printed and nothing else; \<^verbatim>\<open>ReadAll\<close> of the
  nil file then delivers no bytes, and \<^verbatim>\<open>json.Unmarshal\<close> of no bytes is a syntax error
  that leaves the struct as it was. Both errors are dropped by the source.
\<close>

definition byteValue :: "env \<Rightarrow> string" where
  "byteValue env = (case credentials_open env of None \<Rightarrow> credentials_bytes env | Some e \<Rightarrow> [])"

definition credentials :: "env \<Rightarrow> Credentials" where
  "credentials env =
     (if byteValue env = []
      then \<lparr>AzureStorageAccountName = [], AzureStorageAccountKey = []\<rparr>
      else json_decode env (byteValue env))"

definition load_credentials :: "env \<Rightarrow> run" where
  "load_credentials env =
     steps [
       call (OsOpen ''credentials.json''),
       (case credentials_open env of
          Some e \<Rightarrow> say (e @ ''\<newline>'')
        | None \<Rightarrow> ([], Normal)),
       say ''Successfully loading credentials.json\<newline>'',
       call (ReadAll ''credentials.json'')]"

text \<open>Lines 58 to 60.\<close>

definition check_credentials :: "env \<Rightarrow> run" where
  "check_credentials env =
     (if length (AzureStorageAccountName (credentials env)) = 0
         \<or> length (AzureStorageAccountKey (credentials env)) = 0
      then log_Fatal ''Either the AzureStorageAccountName or AzureStorageAccountKey variable is empty''
      else ([], Normal))"

text \<open>Lines 63 to 67.\<close>

definition new_credential :: "env \<Rightarrow> run" where
  "new_credential env =
     andThen
       (call (NewSharedKeyCredential (AzureStorageAccountName (credentials env))
                (AzureStorageAccountKey (credentials env))))
       (case shared_key_credential env (AzureStorageAccountName (credentials env))
               (AzureStorageAccountKey (credentials env)) of
          Some e \<Rightarrow> log_Fatal (''Invalid credentials with error: '' @ Error e)
        | None \<Rightarrow> ([], Normal))"

text \<open>Lines 70 to 76. The error of \<^verbatim>\<open>url.Parse\<close> is dropped and the result dereferenced.\<close>

definition containerName :: "env \<Rightarrow> string" where
  "containerName env = ''quickstart-'' @ randomString env 0"

definition container_url :: "env \<Rightarrow> string" where
  "container_url env =
     ''https://'' @ AzureStorageAccountName (credentials env) @ ''.blob.core.windows.net/''
       @ containerName env"

definition new_container_url :: "env \<Rightarrow> run" where
  "new_container_url env =
     andThen (call (UrlParse (container_url env)))
       (if url_parse_ok env (container_url env) then ([], Normal) else panic)"

text \<open>Lines 79 to 82.\<close>

definition create_container :: "env \<Rightarrow> run" where
  "create_container env =
     steps [
       say (''Creating a container named '' @ containerName env @ ''\<newline>''),
       call (ContainerCreate (containerName env)),
       handleErrors (container_create env)]"

text \<open>Lines 85 to 94. The permission bits \<^verbatim>\<open>0700\<close> are octal: 448.\<close>

definition data :: string where
  "data = ''hello world this is a blob\<newline>''"

definition fileName :: "env \<Rightarrow> string" where
  "fileName env = randomString env 1"

definition create_file :: "env \<Rightarrow> run" where
  "create_file env =
     steps [
       say ''Creating a dummy file to test the upload and download\<newline>'',
       call (WriteFile (fileName env) data 448),
       handleErrors (os_error (write_file env)),
       call (OsOpen (fileName env)),
       handleErrors (os_error (file_open env))]"

text \<open>Lines 104 to 108.\<close>

definition upload :: "env \<Rightarrow> run" where
  "upload env =
     steps [
       say (''Uploading the file with blob name: '' @ fileName env @ ''\<newline>''),
       call (UploadFileToBlockBlob (containerName env) (fileName env) (4 * 1024 * 1024) 16),
       handleErrors (upload_file env)]"

text \<open>
  Lines 111 to 125. The loop runs while \<^verbatim>\<open>marker.NotDone()\<close>; it may run for ever, so
  it is a partial function and not returning is the value \<open>None\<close>. It is given the
  three things it reads: the predicate \<open>notDone\<close>, the listing operation \<open>listBlobs\<close> and
  the container's name; \<open>n\<close> counts the calls made so far. After a call whose error
  \<^verbatim>\<open>handleErrors\<close> lets pass, the response is dereferenced (\<^verbatim>\<open>listBlob.NextMarker\<close>): a
  nil response panics there.
\<close>

definition blob_line :: "string \<Rightarrow> string" where
  "blob_line name = '' Blob name: '' @ name @ ''\<newline>''"

definition prepend :: "event list \<Rightarrow> run \<Rightarrow> run option" where
  "prepend t k = Some (t @ fst k, snd k)"

partial_function (option) list_loop ::
  "(Marker \<Rightarrow> bool) \<Rightarrow> (nat \<Rightarrow> Marker \<Rightarrow> ListBlobsFlatSegmentResponse option \<times> error option)
     \<Rightarrow> string \<Rightarrow> nat \<Rightarrow> Marker \<Rightarrow> run option"
where
  "list_loop notDone listBlobs container n marker =
     (if notDone marker then
        (case listBlobs n marker of
           (listBlob, err) \<Rightarrow>
             (case andThen (call (ListBlobsFlatSegment container marker)) (handleErrors err) of
                (t, Normal) \<Rightarrow>
                  (case listBlob of
                     None \<Rightarrow> Some (t, Panic)
                   | Some resp \<Rightarrow>
                       Option.bind
                         (list_loop notDone listBlobs container (Suc n) (NextMarker resp))
                         (prepend (t @ map (\<lambda>name. Stdout (blob_line name)) (BlobItems resp))))
              | (t, s) \<Rightarrow> Some (t, s)))
      else Some ([], Normal))"

definition list_container :: "env \<Rightarrow> run option" where
  "list_container env =
     Option.bind (list_loop (NotDone env) (list_blobs env) (containerName env) 0 None)
       (prepend [Stdout ''Listing the blobs in the container:\<newline>''])"

text \<open>
  Lines 128 to 136. The error of \<^verbatim>\<open>Download\<close> is assigned and then overwritten by the
  error of \<^verbatim>\<open>ReadFrom\<close>; \<^verbatim>\<open>Body\<close> reads fields of the response it is called on, so
  a nil response panics.
\<close>

definition download :: "env \<Rightarrow> run" where
  "download env =
     steps [
       call (BlobDownload (containerName env) (fileName env) 0 CountToEnd),
       call (Body 20),
       (case blob_download env of
          (downloadResponse, err) \<Rightarrow>
            (case downloadResponse of
               None \<Rightarrow> panic
             | Some resp \<Rightarrow>
                 (case read_body resp 20 of
                    (downloadedData, err') \<Rightarrow>
                      andThen (call (ReadFrom downloadedData)) (handleErrors err'))))]"

text \<open>
  Lines 139 to 144. The results of \<^verbatim>\<open>ReadBytes\<close>, \<^verbatim>\<open>Delete\<close>, \<^verbatim>\<open>Close\<close> and
  \<^verbatim>\<open>os.Remove\<close> are dropped by the source. \<open>StdinReadBytes\<close> is the return of
  \<^verbatim>\<open>ReadBytes\<close> (up to a newline), with a line or with an error such as the end of the input.
\<close>

definition cleanup :: "env \<Rightarrow> run" where
  "cleanup env =
     steps [
       say ''Press enter key to delete the sample files, example cntainer, and exit the application.\<newline>'',
       call StdinReadBytes,
       say ''Cleaning up.\<newline>'',
       call (ContainerDelete (containerName env)),
       call (FileClose (fileName env)),
       call (OsRemove (fileName env))]"

text \<open>
  \<^verbatim>\<open>defer credentialsFile.Close()\<close> (line 53) runs when \<^verbatim>\<open>main\<close> returns or panics,
  and not when \<^verbatim>\<open>log.Fatal\<close> exits the process.
\<close>

definition deferred :: "run \<Rightarrow> run" where
  "deferred r =
     (case r of
        (t, Fatal) \<Rightarrow> (t, Fatal)
      | (t, s) \<Rightarrow> (t @ [FileClose ''credentials.json''], s))"

definition before_listing :: "env \<Rightarrow> run" where
  "before_listing env =
     steps [
       say ''Azure Blob Storage quick start sample\<newline>'',
       load_credentials env,
       check_credentials env,
       new_credential env,
       new_container_url env,
       create_container env,
       create_file env,
       upload env]"

definition after_listing :: "env \<Rightarrow> run" where
  "after_listing env = steps [download env, cleanup env]"

definition main :: "env \<Rightarrow> run option" where
  "main env =
     (case before_listing env of
        (t, Normal) \<Rightarrow>
          (case list_container env of
             None \<Rightarrow> None
           | Some r \<Rightarrow> Some (deferred (steps [(t, Normal), r, after_listing env])))
      | (t, s) \<Rightarrow> Some (deferred (t, s)))"

section \<open>Vocabulary of the properties\<close>

text \<open>The calls that go to the storage service.\<close>

fun is_network :: "event \<Rightarrow> bool" where
  "is_network (ContainerCreate c) = True"
| "is_network (UploadFileToBlockBlob c b bs p) = True"
| "is_network (ListBlobsFlatSegment c m) = True"
| "is_network (BlobDownload c b off cnt) = True"
| "is_network (Body r) = True"
| "is_network (ReadFrom d) = True"
| "is_network (ContainerDelete c) = True"
| "is_network e = False"

text \<open>The two deletions of the cleanup: of the container and of the local file.\<close>

fun is_deletion :: "event \<Rightarrow> bool" where
  "is_deletion (ContainerDelete c) = True"
| "is_deletion (OsRemove f) = True"
| "is_deletion e = False"

text \<open>A trace with no read of standard input and no deletion.\<close>

definition quiet :: "event list \<Rightarrow> bool" where
  "quiet t = list_all (\<lambda>e. e \<noteq> StdinReadBytes \<and> \<not> is_deletion e) t"

text \<open>
  A scan of a trace: standard input is read at most once, and every deletion comes after
  that read (\<open>seen\<close> says whether the read has happened).
\<close>

fun read_first :: "bool \<Rightarrow> event list \<Rightarrow> bool" where
  "read_first seen [] = True"
| "read_first seen (e # es) =
     (if e = StdinReadBytes then \<not> seen \<and> read_first True es
      else if is_deletion e then seen \<and> read_first seen es
      else read_first seen es)"

definition cleanup_trace :: "env \<Rightarrow> event list" where
  "cleanup_trace env =
     [Stdout ''Press enter key to delete the sample files, example cntainer, and exit the application.\<newline>'',
      StdinReadBytes,
      Stdout ''Cleaning up.\<newline>'',
      ContainerDelete (containerName env),
      FileClose (fileName env),
      OsRemove (fileName env)]"

subsection \<open>Example environments\<close>

text \<open>
  A marker predicate for the examples: a marker with no value (the zero value the loop
  starts from) or with a non-empty value is not done; the empty value is done.
\<close>

definition example_NotDone :: "Marker \<Rightarrow> bool" where
  "example_NotDone m = (m = None \<or> m \<noteq> Some [])"

text \<open>
  An environment in which everything succeeds and the container lists the one blob in one
  page, but for the three things left open: the result of opening the credentials file,
  the access key the file holds and the result of deleting the container.
\<close>

definition example_env :: "string option \<Rightarrow> string \<Rightarrow> error option \<Rightarrow> env" where
  "example_env open_err key delete_err =
     \<lparr>credentials_open = open_err,
      credentials_bytes = ''{}'',
      json_decode = (\<lambda>bytes. \<lparr>AzureStorageAccountName = ''acct'', AzureStorageAccountKey = key\<rparr>),
      shared_key_credential = (\<lambda>name k. None),
      randomString = (\<lambda>n. if n = 0 then ''17'' else ''42''),
      url_parse_ok = (\<lambda>u. True),
      container_create = None,
      write_file = None,
      file_open = None,
      upload_file = None,
      NotDone = example_NotDone,
      list_blobs = (\<lambda>n m. (Some \<lparr>NextMarker = Some [], BlobItems = [''42'']\<rparr>, None)),
      blob_download = (Some (DownloadResponse (\<lambda>retries. (data, None))), None),
      container_delete = delete_err\<rparr>"

definition example_trace :: "event list" where
  "example_trace =
     [Stdout ''Azure Blob Storage quick start sample\<newline>'',
      OsOpen ''credentials.json'',
      Stdout ''Successfully loading credentials.json\<newline>'',
      ReadAll ''credentials.json'',
      NewSharedKeyCredential ''acct'' ''a2V5'',
      UrlParse ''https://acct.blob.core.windows.net/quickstart-17'',
      Stdout ''Creating a container named quickstart-17\<newline>'',
      ContainerCreate ''quickstart-17'',
      Stdout ''Creating a dummy file to test the upload and download\<newline>'',
      WriteFile ''42'' ''hello world this is a blob\<newline>'' 448,
      OsOpen ''42'',
      Stdout ''Uploading the file with blob name: 42\<newline>'',
      UploadFileToBlockBlob ''quickstart-17'' ''42'' 4194304 16,
      Stdout ''Listing the blobs in the container:\<newline>'',
      ListBlobsFlatSegment ''quickstart-17'' None,
      Stdout '' Blob name: 42\<newline>'',
      BlobDownload ''quickstart-17'' ''42'' 0 CountToEnd,
      Body 20,
      ReadFrom ''hello world this is a blob\<newline>'',
      Stdout ''Press enter key to delete the sample files, example cntainer, and exit the application.\<newline>'',
      StdinReadBytes,
      Stdout ''Cleaning up.\<newline>'',
      ContainerDelete ''quickstart-17'',
      FileClose ''42'',
      OsRemove ''42'',
      FileClose ''credentials.json'']"

section \<open>The storage service and the SDK's workflows\<close>

text \<open>
  The paginated listing, the chunked upload and the retrying download are the work of the
  SDK and of the service behind it. Neither is part of the repository, which only calls
  them; the definitions of this section follow the specification's description.
\<close>

subsection \<open>Paginated listing\<close>

text \<open>
  Modelled from the spec: the contract of the paginated list operation (the SDK's
  \<^verbatim>\<open>ListBlobsFlatSegment\<close> and \<^verbatim>\<open>Marker.NotDone\<close>, absent from the sources), for a
  container whose contents \<open>names\<close> are stable and a page size \<open>K\<close>. \<open>mk i\<close> is the marker
  that continues the listing at offset \<open>i\<close>, and \<open>mk 0\<close> the zero-valued marker the caller
  starts from. Each call with \<open>mk i\<close> returns the page of at most \<open>K\<close> names from offset \<open>i\<close>
  and the marker for offset \<open>i + K\<close>; a marker is not done at the start and inside the
  listing, and done at or past its end.
\<close>

definition paginates ::
  "(Marker \<Rightarrow> bool) \<Rightarrow> (nat \<Rightarrow> Marker \<Rightarrow> ListBlobsFlatSegmentResponse option \<times> error option)
     \<Rightarrow> string list \<Rightarrow> nat \<Rightarrow> (nat \<Rightarrow> Marker) \<Rightarrow> bool"
where
  "paginates notDone listBlobs names K mk \<longleftrightarrow>
     mk 0 = None \<and>
     (\<forall>i. notDone (mk i) = (i = 0 \<or> i < length names)) \<and>
     (\<forall>n i. i = 0 \<or> i < length names \<longrightarrow>
        listBlobs n (mk i) =
          (Some \<lparr>NextMarker = mk (i + K), BlobItems = take K (drop i names)\<rparr>, None))"

text \<open>What a trace printed, and the markers it passed to the list operation.\<close>

fun stdout_lines :: "event list \<Rightarrow> string list" where
  "stdout_lines [] = []"
| "stdout_lines (Stdout s # es) = s # stdout_lines es"
| "stdout_lines (e # es) = stdout_lines es"

fun list_markers :: "event list \<Rightarrow> Marker list" where
  "list_markers [] = []"
| "list_markers (ListBlobsFlatSegment c m # es) = m # list_markers es"
| "list_markers (e # es) = list_markers es"

text \<open>The number of calls: one for each page of \<open>K\<close> names, and one for an empty container.\<close>

definition page_count :: "nat \<Rightarrow> nat \<Rightarrow> nat" where
  "page_count N K = max 1 ((N + K - 1) div K)"

definition page_events ::
  "string \<Rightarrow> string list \<Rightarrow> nat \<Rightarrow> (nat \<Rightarrow> Marker) \<Rightarrow> nat \<Rightarrow> event list" where
  "page_events c names K mk j =
     ListBlobsFlatSegment c (mk (j * K))
       # map (\<lambda>name. Stdout (blob_line name)) (take K (drop (j * K) names))"

text \<open>
  An instance of the contract for the examples: the marker for offset \<open>i\<close> holds \<open>i\<close>
  characters, and the service reads the offset back from its length.
\<close>

definition example_marker :: "nat \<Rightarrow> nat \<Rightarrow> Marker" where
  "example_marker N i =
     (if i = 0 then None else if i < N then Some (replicate i CHR ''x'') else Some [])"

definition example_listing ::
  "string list \<Rightarrow> nat \<Rightarrow> nat \<Rightarrow> Marker \<Rightarrow> ListBlobsFlatSegmentResponse option \<times> error option"
where
  "example_listing names K n m =
     (Some \<lparr>NextMarker =
              example_marker (length names) ((case m of None \<Rightarrow> 0 | Some tok \<Rightarrow> length tok) + K),
            BlobItems = take K (drop (case m of None \<Rightarrow> 0 | Some tok \<Rightarrow> length tok) names)\<rparr>,
      None)"

definition paging_env :: "string list \<Rightarrow> nat \<Rightarrow> env" where
  "paging_env names K = (example_env None ''a2V5'' None)\<lparr>list_blobs := example_listing names K\<rparr>"

subsection \<open>Chunked upload\<close>

text \<open>A payload is a sequence of bytes, as a Go \<^verbatim>\<open>[]byte\<close> or string is.\<close>

type_synonym bytes = string

text \<open>
  Modelled from the spec: the split of the byte source into ordered blocks of at most
  \<open>blockSize\<close> bytes (done by the SDK's \<^verbatim>\<open>UploadFileToBlockBlob\<close>, absent from the
  sources). The spec says nothing of a block size of 0; the model then makes no block.
\<close>

function split_blocks :: "nat \<Rightarrow> bytes \<Rightarrow> bytes list" where
  "split_blocks B P = (if B = 0 \<or> P = [] then [] else take B P # split_blocks B (drop B P))"
  by pat_completeness auto
termination
  by (relation "measure (\<lambda>(B, P). length P)") auto

declare split_blocks.simps [simp del]

text \<open>
  Modelled from the spec: the bounded worker pool of width \<open>w\<close> that uploads the blocks
  (part of the absent \<^verbatim>\<open>UploadFileToBlockBlob\<close>). Blocks wait in a queue; while a worker is
  free the next block starts; otherwise one of the uploads in flight finishes. Which one
  is not determined: \<open>choices\<close> is the scheduler's sequence of picks among the uploads in
  flight (a pick that names none, or a missing pick, means the oldest).
\<close>

datatype pool_event = Start nat | Finish nat

text \<open>
  Modelled from the spec: which upload in flight finishes next ("no ordering guarantee on
  completion"): the scheduler's pick when it names one, else the oldest.
\<close>

definition pick :: "nat list \<Rightarrow> nat list \<Rightarrow> nat" where
  "pick choices inflight =
     (case choices of [] \<Rightarrow> 0 | c # cs \<Rightarrow> if c < length inflight then c else 0)"

text \<open>Modelled from the spec: an upload that finished leaves the set of those in flight.\<close>

definition remove_at :: "nat \<Rightarrow> 'a list \<Rightarrow> 'a list" where
  "remove_at k xs = take k xs @ drop (Suc k) xs"

text \<open>
  Modelled from the spec: the run of the pool ("upload blocks concurrently with a bounded
  worker pool of width parallelism"), as the sequence of its starts and finishes.
\<close>

function run_pool :: "nat \<Rightarrow> nat list \<Rightarrow> nat list \<Rightarrow> nat list \<Rightarrow> pool_event list" where
  "run_pool w queue inflight choices =
     (if queue \<noteq> [] \<and> length inflight < w
      then Start (hd queue) # run_pool w (tl queue) (inflight @ [hd queue]) choices
      else if inflight \<noteq> []
      then Finish (inflight ! pick choices inflight)
             # run_pool w queue (remove_at (pick choices inflight) inflight) (tl choices)
      else [])"
  by pat_completeness auto
termination
  apply (relation "measure (\<lambda>(w, queue, inflight, choices). 2 * length queue + length inflight)")
    apply (auto simp: remove_at_def pick_def split: list.splits)
  apply (case_tac queue; simp)
  done

declare run_pool.simps [simp del]

text \<open>Modelled from the spec: the order in which the uploads of a run finish.\<close>

fun completion_order :: "pool_event list \<Rightarrow> nat list" where
  "completion_order [] = []"
| "completion_order (Finish i # es) = i # completion_order es"
| "completion_order (Start i # es) = completion_order es"

text \<open>
  Modelled from the spec: the largest number of uploads in flight at once in a run that
  starts with \<open>cur\<close> of them in flight (the width the pool uses).
\<close>

fun max_in_flight :: "nat \<Rightarrow> pool_event list \<Rightarrow> nat" where
  "max_in_flight cur [] = cur"
| "max_in_flight cur (Start i # es) = max cur (max_in_flight (Suc cur) es)"
| "max_in_flight cur (Finish i # es) = max cur (max_in_flight (cur - 1) es)"

text \<open>
  Modelled from the spec: the requests of the wire protocol that write a blob (single
  put-blob, put-block, put-block-list), and the service's state: the committed, visible
  blobs by name, and the uncommitted blocks by blob name and block id. A blob is visible
  only once a commit succeeds; a commit that names a block never uploaded fails.
\<close>

datatype request =
    PutBlob string bytes
  | PutBlock string nat bytes
  | PutBlockList string "nat list"

text \<open>
  Modelled from the spec: the state of the service, committed blobs and uncommitted blocks
  ("uncommitted blocks must not be treated as durable data").
\<close>

record storage =
  committed :: "string \<Rightarrow> bytes option"
  uncommitted :: "string \<Rightarrow> nat \<Rightarrow> bytes option"

text \<open>
  Modelled from the spec: the service's handling of one request. A direct write and a
  commit make the blob visible with the new content (a re-upload replaces it); a block
  upload stages the block; a commit concatenates the listed blocks in the listed order.
\<close>

fun serve :: "storage \<Rightarrow> request \<Rightarrow> storage option" where
  "serve st (PutBlob name P) = Some (st\<lparr>committed := (committed st)(name \<mapsto> P)\<rparr>)"
| "serve st (PutBlock name i b) =
     Some (st\<lparr>uncommitted := (uncommitted st)(name := (uncommitted st name)(i \<mapsto> b))\<rparr>)"
| "serve st (PutBlockList name ids) =
     (if list_all (\<lambda>i. uncommitted st name i \<noteq> None) ids
      then Some (st\<lparr>committed :=
                      (committed st)(name \<mapsto> concat (map (\<lambda>i. the (uncommitted st name i)) ids)),
                    uncommitted := (uncommitted st)(name := Map.empty)\<rparr>)
      else None)"

text \<open>Modelled from the spec: requests are served in the order they reach the service.\<close>

fun serve_all :: "storage \<Rightarrow> request list \<Rightarrow> storage option" where
  "serve_all st [] = Some st"
| "serve_all st (r # rs) = (case serve st r of None \<Rightarrow> None | Some st' \<Rightarrow> serve_all st' rs)"

text \<open>
  Modelled from the spec: the upload workflow (the SDK's \<^verbatim>\<open>UploadFileToBlockBlob\<close>, absent
  from the sources), on the path where every request succeeds. A payload of at most
  \<open>threshold\<close> bytes (service-defined; 256MB in the spec's example) is one direct write.
  A larger one is split into blocks, the blocks are uploaded by the pool, reaching the
  service in the order their uploads finish, and one commit request lists the block ids
  in the original order.
\<close>

definition Upload_requests ::
  "nat \<Rightarrow> nat \<Rightarrow> nat \<Rightarrow> nat list \<Rightarrow> string \<Rightarrow> bytes \<Rightarrow> request list" where
  "Upload_requests threshold blockSize parallelism choices name P =
     (if length P \<le> threshold then [PutBlob name P]
      else
        map (\<lambda>i. PutBlock name i (split_blocks blockSize P ! i))
          (completion_order
             (run_pool parallelism [0..<length (split_blocks blockSize P)] [] choices))
        @ [PutBlockList name [0..<length (split_blocks blockSize P)]])"

text \<open>
  Modelled from the spec: \<open>Upload\<close>, which "commits a blob whose content equals the full
  byteSource": the state of the service after the requests of the workflow.
\<close>

definition Upload_workflow ::
  "storage \<Rightarrow> nat \<Rightarrow> nat \<Rightarrow> nat \<Rightarrow> nat list \<Rightarrow> string \<Rightarrow> bytes \<Rightarrow> storage option" where
  "Upload_workflow st threshold blockSize parallelism choices name P =
     serve_all st (Upload_requests threshold blockSize parallelism choices name P)"

subsection \<open>Retrying download\<close>

text \<open>Modelled from the spec: the error of a download whose retries are exhausted.\<close>

datatype failure = DownloadFailed

text \<open>Modelled from the spec: the byte range a download asks for (range start, range length).\<close>

definition blob_range :: "bytes \<Rightarrow> nat \<Rightarrow> count \<Rightarrow> bytes" where
  "blob_range content off cnt =
     (case cnt of CountToEnd \<Rightarrow> drop off content | Count n \<Rightarrow> take n (drop off content))"

text \<open>
  Modelled from the spec: reading the retryable stream to its end (the SDK's retry reader,
  absent from the sources). \<open>body\<close> is the range asked for, \<open>off\<close> the offset delivered so
  far and \<open>retries\<close> the retries left. The connection may drop mid-read: \<open>drops\<close> lists, for
  each request in turn, how many bytes it delivers before its connection drops; a request
  with no entry, or with an entry that reaches the end of the range, delivers the rest.
  After a drop the range request is issued again from the offset delivered so far, as long
  as retries are left; with none left the read fails with \<open>DownloadFailed\<close>. The result is
  the offsets of the requests issued, the bytes delivered to the caller and the error.
\<close>

fun retry_read :: "bytes \<Rightarrow> nat \<Rightarrow> nat \<Rightarrow> nat list \<Rightarrow> nat list \<times> bytes \<times> failure option" where
  "retry_read body off retries [] = ([off], drop off body, None)"
| "retry_read body off retries (d # ds) =
     (if length body - off \<le> d then ([off], drop off body, None)
      else if retries = 0 then ([off], take d (drop off body), Some DownloadFailed)
      else (case retry_read body (off + d) (retries - 1) ds of
              (reqs, rest, e) \<Rightarrow> (off # reqs, take d (drop off body) @ rest, e)))"

text \<open>
  Modelled from the spec: the download workflow (the SDK's \<^verbatim>\<open>Download\<close> and \<^verbatim>\<open>Body\<close>,
  absent from the sources): for a committed blob, the stream over the range asked for, as
  a function of the configured maximum of retries; nothing for a blob that is not visible.
\<close>

definition Download_workflow ::
  "storage \<Rightarrow> string \<Rightarrow> nat \<Rightarrow> count \<Rightarrow> nat list
     \<Rightarrow> (nat \<Rightarrow> nat list \<times> bytes \<times> failure option) option" where
  "Download_workflow st name off cnt drops =
     map_option (\<lambda>content retries. retry_read (blob_range content off cnt) 0 retries drops)
       (committed st name)"

text \<open>
  Modelled from the spec: the response the program gets for such a stream (the SDK's
  \<^verbatim>\<open>DownloadResponse\<close>, absent from the sources): what \<^verbatim>\<open>ReadFrom\<close> delivers to the
  buffer and the error it returns.
\<close>

definition stream_response :: "(nat \<Rightarrow> nat list \<times> bytes \<times> failure option) \<Rightarrow> DownloadResponse" where
  "stream_response stream =
     DownloadResponse
       (\<lambda>retries. case stream retries of
          (reqs, received, e) \<Rightarrow> (received, map_option (\<lambda>f. OtherError ''DownloadFailed'') e))"

text \<open>Two states of the service for the examples: no blob, and one visible blob.\<close>

definition empty_storage :: storage where
  "empty_storage = \<lparr>committed = Map.empty, uncommitted = (\<lambda>name. Map.empty)\<rparr>"

definition example_storage :: storage where
  "example_storage =
     \<lparr>committed = [''42'' \<mapsto> ''hello world''], uncommitted = (\<lambda>name. Map.empty)\<rparr>"

section \<open>Lemmas about the model\<close>

lemmas run_defs = andThen_def call_def say_def log_Fatal_def panic_def

lemmas stage_defs = before_listing_def load_credentials_def check_credentials_def
  credentials_def byteValue_def new_credential_def new_container_url_def container_url_def
  containerName_def create_container_def data_def fileName_def create_file_def upload_def
  list_container_def blob_line_def prepend_def download_def cleanup_def after_listing_def
  deferred_def handleErrors_def os_error_def

lemma andThen_Normal [simp]: "andThen (t, Normal) k = (t @ fst k, snd k)"
  by (simp add: andThen_def)

lemma andThen_Fatal [simp]: "andThen (t, Fatal) k = (t, Fatal)"
  by (simp add: andThen_def)

lemma andThen_Panic [simp]: "andThen (t, Panic) k = (t, Panic)"
  by (simp add: andThen_def)

subsection \<open>The listing loop, one iteration at a time\<close>

lemma list_loop_done:
  "\<not> notDone m \<Longrightarrow> list_loop notDone lb c n m = Some ([], Normal)"
  by (subst list_loop.simps) simp

lemma list_loop_notDone:
  "notDone m \<Longrightarrow> list_loop notDone lb c n m =
     (case lb n m of
        (listBlob, err) \<Rightarrow>
          (case andThen (call (ListBlobsFlatSegment c m)) (handleErrors err) of
             (t, Normal) \<Rightarrow>
               (case listBlob of
                  None \<Rightarrow> Some (t, Panic)
                | Some resp \<Rightarrow>
                    Option.bind (list_loop notDone lb c (Suc n) (NextMarker resp))
                      (prepend (t @ map (\<lambda>name. Stdout (blob_line name)) (BlobItems resp))))
           | (t, s) \<Rightarrow> Some (t, s)))"
  by (subst list_loop.simps) simp

subsection \<open>The example run\<close>

lemma main_example_env:
  "main (example_env None ''a2V5'' d) = Some (example_trace, Normal)"
  by (simp add: main_def example_env_def stage_defs run_defs example_trace_def
        list_loop_done list_loop_notDone example_NotDone_def)

subsection \<open>No stage before the cleanup reads standard input or deletes\<close>

lemma quiet_append [simp]: "quiet (xs @ ys) = (quiet xs \<and> quiet ys)"
  by (simp add: quiet_def)

lemma quiet_Nil [simp]: "quiet []"
  by (simp add: quiet_def)

lemma quiet_Cons [simp]:
  "quiet (e # t) = (e \<noteq> StdinReadBytes \<and> \<not> is_deletion e \<and> quiet t)"
  by (simp add: quiet_def)

lemma quiet_handleErrors [simp]: "quiet (fst (handleErrors err))"
  by (simp add: handleErrors_def say_def log_Fatal_def split: option.splits)

lemma quiet_andThen: "quiet (fst a) \<Longrightarrow> quiet (fst b) \<Longrightarrow> quiet (fst (andThen a b))"
  by (cases a) (auto simp: andThen_def split: outcome.splits)

lemma quiet_steps: "list_all (\<lambda>r. quiet (fst r)) rs \<Longrightarrow> quiet (fst (steps rs))"
  by (induction rs) (simp_all add: quiet_andThen)

lemma quiet_blob_lines [simp]: "quiet (map (\<lambda>name. Stdout (blob_line name)) names)"
  by (induction names) simp_all

lemma list_loop_quiet: "list_loop nd lb c n m = Some r \<Longrightarrow> quiet (fst r)"
proof (induction rule: list_loop.raw_induct [rotated 1, consumes 1, case_names step])
  case (step loop nd lb c n m r)
  show ?case
  proof (cases "nd m")
    case False
    with step(2) show ?thesis by auto
  next
    case True
    obtain listBlob err where lb: "lb n m = (listBlob, err)" by (cases "lb n m")
    obtain t s where hs: "andThen (call (ListBlobsFlatSegment c m)) (handleErrors err) = (t, s)"
      by (cases "andThen (call (ListBlobsFlatSegment c m)) (handleErrors err)")
    have qt: "quiet t"
      using quiet_andThen [of "call (ListBlobsFlatSegment c m)" "handleErrors err"] hs
      by (auto simp: call_def)
    show ?thesis
    proof (cases s)
      case Normal
      show ?thesis
      proof (cases listBlob)
        case None
        with step(2) True lb hs Normal qt show ?thesis by auto
      next
        case (Some resp)
        with step(2) True lb hs Normal obtain r' where
          r': "loop nd lb c (Suc n) (NextMarker resp) = Some r'"
          and r: "r = (t @ map (\<lambda>name. Stdout (blob_line name)) (BlobItems resp) @ fst r', snd r')"
          by (auto simp: prepend_def split: bind_splits)
        from step(1) [OF r'] qt r show ?thesis by simp
      qed
    next
      case Fatal
      with step(2) True lb hs qt show ?thesis by auto
    next
      case Panic
      with step(2) True lb hs qt show ?thesis by auto
    qed
  qed
qed

lemma quiet_load_credentials: "quiet (fst (load_credentials env))"
  unfolding load_credentials_def
  by (rule quiet_steps) (simp add: call_def say_def split: option.splits)

lemma quiet_check_credentials: "quiet (fst (check_credentials env))"
  by (simp add: check_credentials_def log_Fatal_def)

lemma quiet_new_credential: "quiet (fst (new_credential env))"
  unfolding new_credential_def
  by (rule quiet_andThen) (simp_all add: call_def log_Fatal_def split: option.splits)

lemma quiet_new_container_url: "quiet (fst (new_container_url env))"
  unfolding new_container_url_def
  by (rule quiet_andThen) (simp_all add: call_def panic_def)

lemma quiet_create_container: "quiet (fst (create_container env))"
  unfolding create_container_def
  by (rule quiet_steps) (simp add: call_def say_def)

lemma quiet_create_file: "quiet (fst (create_file env))"
  unfolding create_file_def
  by (rule quiet_steps) (simp add: call_def say_def)

lemma quiet_upload: "quiet (fst (upload env))"
  unfolding upload_def
  by (rule quiet_steps) (simp add: call_def say_def)

lemma quiet_before_listing: "quiet (fst (before_listing env))"
  unfolding before_listing_def
  by (rule quiet_steps)
     (simp add: say_def quiet_load_credentials quiet_check_credentials quiet_new_credential
        quiet_new_container_url quiet_create_container quiet_create_file quiet_upload)

lemma quiet_download: "quiet (fst (download env))"
  unfolding download_def
  by (rule quiet_steps)
     (auto simp: call_def panic_def intro!: quiet_andThen split: prod.splits option.splits)

lemma quiet_list_container: "list_container env = Some r \<Longrightarrow> quiet (fst r)"
  by (auto simp: list_container_def prepend_def split: bind_splits dest: list_loop_quiet)

subsection \<open>The shape of every trace of main\<close>

lemma cleanup_eq: "cleanup env = (cleanup_trace env, Normal)"
  by (simp add: cleanup_def cleanup_trace_def call_def say_def)

lemma after_listing_cases:
  "(\<exists>t s. after_listing env = (t, s) \<and> s \<noteq> Normal \<and> quiet t)
   \<or> (\<exists>t. after_listing env = (t @ cleanup_trace env, Normal) \<and> quiet t)"
proof -
  obtain td sd where d: "download env = (td, sd)" by (cases "download env")
  have q: "quiet td" using quiet_download [of env] d by simp
  show ?thesis
    using d q by (cases sd) (simp_all add: after_listing_def cleanup_eq)
qed

lemma main_shape:
  assumes "main env = Some (t, s)"
  shows "\<exists>pre. quiet pre \<and>
           (t = pre \<and> s \<noteq> Normal
            \<or> t = pre @ cleanup_trace env @ [FileClose ''credentials.json''] \<and> s = Normal)"
proof -
  obtain t0 s0 where b: "before_listing env = (t0, s0)" by (cases "before_listing env")
  have q0: "quiet t0" using quiet_before_listing [of env] b by simp
  show ?thesis
  proof (cases s0)
    case Normal
    with assms b obtain tl sl where l: "list_container env = Some (tl, sl)"
      and m: "(t, s) = deferred (steps [(t0, Normal), (tl, sl), after_listing env])"
      by (auto simp: main_def split: option.splits)
    have ql: "quiet tl" using quiet_list_container [OF l] by simp
    show ?thesis
    proof (cases sl)
      case Normal
      from after_listing_cases [of env] show ?thesis
      proof (elim disjE exE conjE)
        fix ta sa assume a: "after_listing env = (ta, sa)" "sa \<noteq> Normal" "quiet ta"
        with m Normal q0 ql show ?thesis
          by (cases sa) (auto simp: deferred_def)
      next
        fix ta assume a: "after_listing env = (ta @ cleanup_trace env, Normal)" "quiet ta"
        with m Normal q0 ql show ?thesis
          by (auto simp: deferred_def intro!: exI [of _ "t0 @ tl @ ta"])
      qed
    next
      case Fatal
      with m q0 ql show ?thesis by (auto simp: deferred_def)
    next
      case Panic
      with m q0 ql show ?thesis by (auto simp: deferred_def)
    qed
  next
    case Fatal
    with assms b q0 show ?thesis by (auto simp: main_def deferred_def)
  next
    case Panic
    with assms b q0 show ?thesis by (auto simp: main_def deferred_def)
  qed
qed

lemma read_first_quiet: "quiet pre \<Longrightarrow> read_first b (pre @ rest) = read_first b rest"
  by (induction pre) auto

lemma read_first_quiet_only: "quiet pre \<Longrightarrow> read_first b pre"
  using read_first_quiet [of pre b "[]"] by simp

lemma main_read_first: "main env = Some (t, s) \<Longrightarrow> read_first False t"
  by (drule main_shape) (auto simp: read_first_quiet read_first_quiet_only cleanup_trace_def)

lemma read_first_deletion:
  "read_first b (xs @ e # ys) \<Longrightarrow> is_deletion e \<Longrightarrow> b \<or> StdinReadBytes \<in> set xs"
  by (induction xs arbitrary: b) (auto split: if_splits)

lemma quiet_no_read: "quiet pre \<Longrightarrow> filter (\<lambda>e. e = StdinReadBytes) pre = []"
  by (induction pre) auto

lemma main_reads_once:
  assumes "main env = Some (t, s)" and "\<not> quiet t"
  shows "length (filter (\<lambda>e. e = StdinReadBytes) t) = 1"
proof -
  from main_shape [OF assms(1)] assms(2) obtain pre where
    "quiet pre" and "t = pre @ cleanup_trace env @ [FileClose ''credentials.json'']"
    by auto
  then show ?thesis by (simp add: quiet_no_read cleanup_trace_def)
qed

lemma read_first_single:
  "read_first b (xs @ StdinReadBytes # ys) \<Longrightarrow> \<not> b \<and> StdinReadBytes \<notin> set xs"
  by (induction xs arbitrary: b) (auto split: if_splits)

subsection \<open>Results the program never reads\<close>

lemma credentials_blob_download [simp]:
  "credentials (env\<lparr>blob_download := x\<rparr>) = credentials env"
  by (simp add: credentials_def byteValue_def cong: option.case_cong)

lemma containerName_blob_download [simp]:
  "containerName (env\<lparr>blob_download := x\<rparr>) = containerName env"
  by (simp add: containerName_def)

lemma fileName_blob_download [simp]:
  "fileName (env\<lparr>blob_download := x\<rparr>) = fileName env"
  by (simp add: fileName_def)

lemma before_listing_blob_download [simp]:
  "before_listing (env\<lparr>blob_download := x\<rparr>) = before_listing env"
  by (simp add: before_listing_def load_credentials_def check_credentials_def
        new_credential_def new_container_url_def container_url_def
        create_container_def create_file_def upload_def cong: option.case_cong)

lemma list_container_blob_download [simp]:
  "list_container (env\<lparr>blob_download := x\<rparr>) = list_container env"
  by (simp add: list_container_def)

lemma cleanup_blob_download [simp]:
  "cleanup (env\<lparr>blob_download := x\<rparr>) = cleanup env"
  by (simp add: cleanup_def)

lemma credentials_container_delete [simp]:
  "credentials (env\<lparr>container_delete := x\<rparr>) = credentials env"
  by (simp add: credentials_def byteValue_def cong: option.case_cong)

lemma containerName_container_delete [simp]:
  "containerName (env\<lparr>container_delete := x\<rparr>) = containerName env"
  by (simp add: containerName_def)

lemma fileName_container_delete [simp]:
  "fileName (env\<lparr>container_delete := x\<rparr>) = fileName env"
  by (simp add: fileName_def)

lemma before_listing_container_delete [simp]:
  "before_listing (env\<lparr>container_delete := x\<rparr>) = before_listing env"
  by (simp add: before_listing_def load_credentials_def check_credentials_def
        new_credential_def new_container_url_def container_url_def
        create_container_def create_file_def upload_def cong: option.case_cong)

lemma after_listing_container_delete [simp]:
  "after_listing (env\<lparr>container_delete := x\<rparr>) = after_listing env"
  by (simp add: after_listing_def download_def cleanup_def)

lemma list_container_container_delete [simp]:
  "list_container (env\<lparr>container_delete := x\<rparr>) = list_container env"
  by (simp add: list_container_def)

lemma cleanup_trace_container_delete [simp]:
  "cleanup_trace (env\<lparr>container_delete := x\<rparr>) = cleanup_trace env"
  by (simp add: cleanup_trace_def)

subsection \<open>The listing loop against a paginating service\<close>

lemma page_count_pos: "0 < page_count N K"
  by (simp add: page_count_def)

lemma page_count_covers: "0 < K \<Longrightarrow> N \<le> page_count N K * K"
proof -
  assume K: "0 < K"
  have "N + K - 1 < K + K * ((N + K - 1) div K)"
    using K by (rule dividend_less_times_div)
  then have "N \<le> (N + K - 1) div K * K" using K by (simp add: mult.commute)
  also have "\<dots> \<le> page_count N K * K" by (simp add: page_count_def)
  finally show ?thesis .
qed

lemma page_count_inside: "0 < K \<Longrightarrow> 0 < j \<Longrightarrow> j < page_count N K \<Longrightarrow> j * K < N"
proof -
  assume K: "0 < K" and j: "0 < j" "j < page_count N K"
  then have "Suc j \<le> (N + K - 1) div K" by (simp add: page_count_def max_def split: if_splits)
  then have "Suc j * K \<le> N + K - 1" using K by (simp add: less_eq_div_iff_mult_less_eq)
  then show ?thesis using K by simp
qed

lemma stdout_lines_append [simp]: "stdout_lines (xs @ ys) = stdout_lines xs @ stdout_lines ys"
  by (induction xs rule: stdout_lines.induct) simp_all

lemma list_markers_append [simp]: "list_markers (xs @ ys) = list_markers xs @ list_markers ys"
  by (induction xs rule: list_markers.induct) simp_all

lemma stdout_lines_blob_lines [simp]:
  "stdout_lines (map (\<lambda>name. Stdout (blob_line name)) names) = map blob_line names"
  by (induction names) simp_all

lemma list_markers_blob_lines [simp]:
  "list_markers (map (\<lambda>name. Stdout (blob_line name)) names) = []"
  by (induction names) simp_all

lemma concat_pages: "concat (map (\<lambda>j. take K (drop (j * K) xs)) [0..<p]) = take (p * K) xs"
proof (induction p)
  case 0
  show ?case by simp
next
  case (Suc p)
  have "take (p * K) xs @ take K (drop (p * K) xs) = take (p * K + K) xs"
    by (simp add: take_add)
  with Suc show ?case by (simp add: add.commute)
qed

lemma stdout_lines_pages:
  "stdout_lines (concat (map (page_events c names K mk) [0..<p])) = map blob_line (take (p * K) names)"
proof -
  have "stdout_lines (concat (map (page_events c names K mk) [0..<p]))
      = map blob_line (concat (map (\<lambda>j. take K (drop (j * K) names)) [0..<p]))"
    by (induction p) (simp_all add: page_events_def)
  then show ?thesis by (simp add: concat_pages)
qed

lemma list_markers_pages:
  "list_markers (concat (map (page_events c names K mk) [0..<p])) = map (\<lambda>j. mk (j * K)) [0..<p]"
  by (induction p) (simp_all add: page_events_def)

lemma list_loop_pages:
  assumes pg: "paginates notDone lb names K mk" and K: "0 < K"
  shows "j < page_count (length names) K \<Longrightarrow>
         list_loop notDone lb c n (mk (j * K))
           = Some (concat (map (page_events c names K mk) [j..<page_count (length names) K]), Normal)"
proof (induction "page_count (length names) K - j" arbitrary: j n)
  case 0
  then show ?case by simp
next
  case (Suc d)
  let ?P = "page_count (length names) K"
  have inside: "j * K = 0 \<or> j * K < length names"
    using page_count_inside [OF K _ Suc.prems] by (cases "j = 0") simp_all
  have nd: "notDone (mk (j * K))" using pg inside unfolding paginates_def by blast
  have "lb n (mk (j * K)) =
      (Some \<lparr>NextMarker = mk (j * K + K), BlobItems = take K (drop (j * K) names)\<rparr>, None)"
    using pg inside unfolding paginates_def by blast
  then have call: "lb n (mk (j * K)) =
      (Some \<lparr>NextMarker = mk (Suc j * K), BlobItems = take K (drop (j * K) names)\<rparr>, None)"
    by (simp add: add.commute)
  have rest: "list_loop notDone lb c (Suc n) (mk (Suc j * K))
      = Some (concat (map (page_events c names K mk) [Suc j..<?P]), Normal)"
  proof (cases "Suc j < ?P")
    case True
    with Suc.hyps show ?thesis by (intro Suc.hyps(1)) simp_all
  next
    case False
    with Suc.prems have e: "Suc j = ?P" by simp
    have "length names \<le> Suc j * K" using page_count_covers [OF K, of "length names"] e by simp
    moreover have "0 < Suc j * K" using K by simp
    ultimately have "\<not> notDone (mk (Suc j * K))"
      using pg unfolding paginates_def by (metis leD less_numeral_extra(3))
    then show ?thesis using e by (simp add: list_loop_done)
  qed
  have split: "[j..<?P] = j # [Suc j..<?P]" using Suc.prems by (simp add: upt_conv_Cons)
  show ?case
    using nd
    by (simp add: list_loop_notDone [of notDone "mk (j * K)"] call rest split handleErrors_def
          call_def prepend_def page_events_def del: mult_Suc)
qed


subsection \<open>Blocks, the worker pool, the service and the retrying reader\<close>

lemma split_blocks_concat: "0 < B \<Longrightarrow> concat (split_blocks B P) = P"
proof (induction B P rule: split_blocks.induct)
  case (1 B P)
  then show ?case by (subst split_blocks.simps) auto
qed

lemma split_blocks_bound: "b \<in> set (split_blocks B P) \<Longrightarrow> length b \<le> B"
proof (induction B P rule: split_blocks.induct)
  case (1 B P)
  from "1.prems" have ne: "\<not> (B = 0 \<or> P = [])"
    by (subst (asm) split_blocks.simps) (auto split: if_splits)
  with "1.prems" have "b = take B P \<or> b \<in> set (split_blocks B (drop B P))"
    by (subst (asm) split_blocks.simps) (auto split: if_splits)
  then show ?case using "1.IH" [OF ne] by auto
qed

lemma split_blocks_length: "0 < B \<Longrightarrow> length (split_blocks B P) = (length P + B - 1) div B"
proof (induction B P rule: split_blocks.induct)
  case (1 B P)
  show ?case
  proof (cases "P = []")
    case True
    with "1.prems" show ?thesis by (subst split_blocks.simps) simp
  next
    case False
    with 1 have ih: "length (split_blocks B (drop B P)) = (length P - B + B - 1) div B" by simp
    have "Suc ((length P - B + B - 1) div B) = (length P + B - 1) div B"
    proof (cases "B \<le> length P")
      case True
      with "1.prems" have "length P + B - 1 = (length P - 1) + B" by simp
      then have "(length P + B - 1) div B = Suc ((length P - 1) div B)"
        using "1.prems" by (simp only: div_add_self2)
      with True "1.prems" show ?thesis by simp
    next
      case nle: False
      with False "1.prems" have "(length P + B - 1) div B = 1"
        by (intro div_nat_eqI) (cases P, auto)
      with nle show ?thesis by simp
    qed
    with ih False "1.prems" show ?thesis by (subst split_blocks.simps) simp
  qed
qed


lemma pick_less: "inflight \<noteq> [] \<Longrightarrow> pick choices inflight < length inflight"
  by (simp add: pick_def split: list.splits)

lemma length_remove_at: "k < length xs \<Longrightarrow> length (remove_at k xs) = length xs - 1"
  by (simp add: remove_at_def)

lemma set_remove_at:
  "k < length xs \<Longrightarrow> distinct xs \<Longrightarrow> set (remove_at k xs) = set xs - {xs ! k}"
proof -
  assume k: "k < length xs" and d: "distinct xs"
  have xs: "xs = take k xs @ xs ! k # drop (Suc k) xs" using k by (rule id_take_nth_drop)
  have "distinct (take k xs @ xs ! k # drop (Suc k) xs)" using d xs by simp
  then have "xs ! k \<notin> set (take k xs) \<and> xs ! k \<notin> set (drop (Suc k) xs)" by auto
  moreover have "set xs = set (take k xs) \<union> {xs ! k} \<union> set (drop (Suc k) xs)"
    by (subst xs) auto
  ultimately show ?thesis by (auto simp: remove_at_def)
qed

lemma distinct_remove_at: "distinct xs \<Longrightarrow> distinct (remove_at k xs)"
proof -
  assume d: "distinct xs"
  have "distinct (take k xs @ drop k xs)" using d by simp
  then have disj: "set (take k xs) \<inter> set (drop k xs) = {}" by (simp only: distinct_append)
  have "set (drop (Suc k) xs) \<subseteq> set (drop k xs)" by (rule set_drop_subset_set_drop) simp
  with disj have "set (take k xs) \<inter> set (drop (Suc k) xs) = {}" by blast
  then show ?thesis using d by (simp add: remove_at_def)
qed

lemma run_pool_start:
  "queue \<noteq> [] \<Longrightarrow> length inflight < w \<Longrightarrow>
     run_pool w queue inflight choices
       = Start (hd queue) # run_pool w (tl queue) (inflight @ [hd queue]) choices"
  by (subst run_pool.simps) simp

lemma run_pool_finish:
  "\<not> (queue \<noteq> [] \<and> length inflight < w) \<Longrightarrow> inflight \<noteq> [] \<Longrightarrow>
     run_pool w queue inflight choices
       = Finish (inflight ! pick choices inflight)
           # run_pool w queue (remove_at (pick choices inflight) inflight) (tl choices)"
  by (subst run_pool.simps) simp

lemma run_pool_idle:
  "\<not> (queue \<noteq> [] \<and> length inflight < w) \<Longrightarrow> inflight = [] \<Longrightarrow>
     run_pool w queue inflight choices = []"
  by (subst run_pool.simps) simp

lemma run_pool_completes:
  "0 < w \<Longrightarrow> distinct (queue @ inflight) \<Longrightarrow>
     set (completion_order (run_pool w queue inflight choices)) = set queue \<union> set inflight
     \<and> distinct (completion_order (run_pool w queue inflight choices))"
proof (induction w queue inflight choices rule: run_pool.induct)
  case (1 w queue inflight choices)
  show ?case
  proof (cases "queue \<noteq> [] \<and> length inflight < w")
    case True
    then obtain q qs where q: "queue = q # qs" by (cases queue) auto
    have "distinct (tl queue @ inflight @ [hd queue])" using "1.prems"(2) q by auto
    from "1.IH"(1) [OF True "1.prems"(1) this] q show ?thesis
      using True by (auto simp: run_pool_start)
  next
    case False
    show ?thesis
    proof (cases "inflight = []")
      case True
      with False "1.prems"(1) have "queue = []" by auto
      with True show ?thesis by (simp add: run_pool_idle)
    next
      case ne: False
      let ?k = "pick choices inflight"
      have k: "?k < length inflight" using ne by (rule pick_less)
      have di: "distinct inflight" using "1.prems"(2) by simp
      have sr: "set (remove_at ?k inflight) = set inflight - {inflight ! ?k}"
        using k di by (rule set_remove_at)
      have dr: "distinct (queue @ remove_at ?k inflight)"
        using "1.prems"(2) sr distinct_remove_at [OF di, of ?k] by auto
      have mem: "inflight ! ?k \<in> set inflight" using k by (rule nth_mem)
      have nq: "inflight ! ?k \<notin> set queue" using "1.prems"(2) mem by auto
      from "1.IH"(2) [OF False ne "1.prems"(1) dr] sr mem nq
      show ?thesis
        by (auto simp: run_pool_finish [OF False ne])
    qed
  qed
qed

lemma run_pool_width:
  "max_in_flight (length inflight) (run_pool w queue inflight choices)
     = max (length inflight) (min w (length queue + length inflight))"
proof (induction w queue inflight choices rule: run_pool.induct)
  case (1 w queue inflight choices)
  show ?case
  proof (cases "queue \<noteq> [] \<and> length inflight < w")
    case True
    then have "0 < length queue" by simp
    with True "1.IH"(1) [OF True] show ?thesis
      by (simp add: run_pool_start)
  next
    case False
    show ?thesis
    proof (cases "inflight = []")
      case True
      with False show ?thesis by (auto simp: run_pool_idle)
    next
      case ne: False
      have k: "pick choices inflight < length inflight" using ne by (rule pick_less)
      from ne have "0 < length inflight" by simp
      with "1.IH"(2) [OF False ne] length_remove_at [OF k] False show ?thesis
        by (auto simp: run_pool_finish [OF False ne])
    qed
  qed
qed

lemma serve_all_append:
  "serve_all st (xs @ ys) = (case serve_all st xs of None \<Rightarrow> None | Some st' \<Rightarrow> serve_all st' ys)"
  by (induction xs arbitrary: st) (auto split: option.splits)

lemma serve_all_blocks:
  "\<exists>st'. serve_all st (map (\<lambda>i. PutBlock name i (f i)) order) = Some st'
     \<and> committed st' = committed st
     \<and> (\<forall>i. uncommitted st' name i = (if i \<in> set order then Some (f i) else uncommitted st name i))"
proof (induction order arbitrary: st)
  case Nil
  show ?case by simp
next
  case (Cons j order)
  let ?st1 = "st\<lparr>uncommitted := (uncommitted st)(name := (uncommitted st name)(j \<mapsto> f j))\<rparr>"
  from Cons [of ?st1] obtain st' where
    s: "serve_all ?st1 (map (\<lambda>i. PutBlock name i (f i)) order) = Some st'"
    and c: "committed st' = committed ?st1"
    and u: "\<forall>i. uncommitted st' name i = (if i \<in> set order then Some (f i) else uncommitted ?st1 name i)"
    by blast
  show ?case using s c u by auto
qed

lemma Upload_workflow_commits:
  assumes "0 < blockSize" and "0 < parallelism"
  shows "\<exists>st'. Upload_workflow st threshold blockSize parallelism choices name P = Some st'
           \<and> committed st' = (committed st)(name \<mapsto> P)"
proof (cases "length P \<le> threshold")
  case True
  then show ?thesis by (simp add: Upload_workflow_def Upload_requests_def)
next
  case False
  let ?blocks = "split_blocks blockSize P"
  let ?n = "length ?blocks"
  let ?order = "completion_order (run_pool parallelism [0..<?n] [] choices)"
  have ord: "set ?order = {0..<?n}"
    using run_pool_completes [OF assms(2), of "[0..<?n]" "[]" choices] by simp
  obtain st1 where
    s1: "serve_all st (map (\<lambda>i. PutBlock name i (?blocks ! i)) ?order) = Some st1"
    and c1: "committed st1 = committed st"
    and u1: "\<forall>i. uncommitted st1 name i = (if i \<in> set ?order then Some (?blocks ! i) else uncommitted st name i)"
    using serve_all_blocks [of st name "\<lambda>i. ?blocks ! i" ?order] by blast
  have staged: "\<forall>i \<in> set [0..<?n]. uncommitted st1 name i = Some (?blocks ! i)"
    using u1 ord by simp
  then have all: "list_all (\<lambda>i. uncommitted st1 name i \<noteq> None) [0..<?n]"
    by (simp add: list_all_iff)
  have "map (\<lambda>i. the (uncommitted st1 name i)) [0..<?n] = map (\<lambda>i. ?blocks ! i) [0..<?n]"
    using staged by (intro map_cong) simp_all
  also have "\<dots> = ?blocks" by (rule map_nth)
  finally have "concat (map (\<lambda>i. the (uncommitted st1 name i)) [0..<?n]) = P"
    using split_blocks_concat [OF assms(1)] by simp
  with False s1 c1 all show ?thesis
    by (simp add: Upload_workflow_def Upload_requests_def serve_all_append)
qed

lemma retry_read_within_budget:
  "length drops \<le> retries \<Longrightarrow> snd (retry_read body off retries drops) = (drop off body, None)"
proof (induction drops arbitrary: off retries)
  case Nil
  show ?case by simp
next
  case (Cons d ds)
  then obtain r where r: "retries = Suc r" by (cases retries) auto
  with Cons.prems have "length ds \<le> r" by simp
  from Cons.IH [OF this, of "off + d"]
  have ih: "snd (retry_read body (off + d) r ds) = (drop (off + d) body, None)" .
  have "take d (drop off body) @ drop (off + d) body = drop off body"
    by (metis add.commute append_take_drop_id drop_drop)
  with ih r show ?case by (auto split: prod.splits)
qed

lemma retry_read_offsets:
  "fst (retry_read body off retries drops)
     = map (\<lambda>k. off + sum_list (take k drops)) [0..<length (fst (retry_read body off retries drops))]
   \<and> length (fst (retry_read body off retries drops)) \<le> Suc retries"
proof (induction drops arbitrary: off retries)
  case Nil
  show ?case by simp
next
  case (Cons d ds)
  show ?case
  proof (cases "length body - off \<le> d \<or> retries = 0")
    case True
    then show ?thesis by auto
  next
    case False
    then obtain r where r: "retries = Suc r" by (cases retries) auto
    obtain reqs rest e where rr: "retry_read body (off + d) r ds = (reqs, rest, e)"
      by (cases "retry_read body (off + d) r ds")
    from Cons.IH [of "off + d" r] rr
    have ih: "reqs = map (\<lambda>k. off + d + sum_list (take k ds)) [0..<length reqs]"
      and len: "length reqs \<le> Suc r" by simp_all
    have "map (\<lambda>k. off + sum_list (take k (d # ds))) [0..<Suc (length reqs)]
        = off # map (\<lambda>k. off + d + sum_list (take k ds)) [0..<length reqs]"
    proof -
      have "[0..<Suc (length reqs)] = 0 # map Suc [0..<length reqs]"
        by (simp add: upt_conv_Cons map_Suc_upt del: upt_Suc)
      then show ?thesis by (simp add: comp_def add.assoc del: upt_Suc)
    qed
    with ih have "map (\<lambda>k. off + sum_list (take k (d # ds))) [0..<Suc (length reqs)] = off # reqs"
      by simp
    with False r rr len show ?thesis by simp
  qed
qed

lemma retry_read_exhausted:
  "retries < length drops \<Longrightarrow> sum_list (take (Suc retries) drops) < length body - off \<Longrightarrow>
     snd (retry_read body off retries drops)
       = (take (sum_list (take (Suc retries) drops)) (drop off body), Some DownloadFailed)"
proof (induction retries arbitrary: off drops)
  case 0
  then obtain d ds where "drops = d # ds" by (cases drops) auto
  with 0 show ?case by simp
next
  case (Suc r)
  then obtain d ds where d: "drops = d # ds" by (cases drops) auto
  with Suc.prems have lt: "r < length ds" and sm: "sum_list (take (Suc r) ds) < length body - (off + d)"
    and nd: "\<not> length body - off \<le> d"
    by auto
  from Suc.IH [OF lt sm]
  have ih: "snd (retry_read body (off + d) r ds)
      = (take (sum_list (take (Suc r) ds)) (drop (off + d) body), Some DownloadFailed)" .
  have "take d (drop off body) @ take (sum_list (take (Suc r) ds)) (drop (off + d) body)
      = take (d + sum_list (take (Suc r) ds)) (drop off body)"
    by (simp add: take_add add.commute)
  with ih d nd show ?case by (auto split: prod.splits)
qed

subsection \<open>Facts for the examples\<close>

lemma list_loop_calls_first:
  "notDone m \<Longrightarrow> list_loop notDone lb c n m \<noteq> Some ([], Normal)"
  by (auto simp: list_loop_notDone call_def prepend_def
           split: prod.splits outcome.splits option.splits bind_splits)

lemma example_paginates:
  "paginates example_NotDone (example_listing names K) names K (example_marker (length names))"
  by (auto simp: paginates_def example_NotDone_def example_listing_def example_marker_def)

lemma example_names:
  "containerName (example_env a b c) = ''quickstart-17'' \<and> fileName (example_env a b c) = ''42''"
  by (simp add: containerName_def fileName_def example_env_def)

section \<open>Properties of the program\<close>

text \<open>
  C2. For every error passed to \<^verbatim>\<open>handleErrors\<close>: the handler returns normally, having
  printed the 409 message, exactly when the error is a storage error whose service code is
  \<^verbatim>\<open>ContainerAlreadyExists\<close>; for every other non-nil error it logs the error and the
  process terminates. (For the nil error it returns and prints nothing.)
\<close>

theorem handleErrors_recoverable:
  "handleErrors None = ([], Normal) \<and>
   handleErrors (Some e) =
     (if \<exists>msg. e = StorageError ''ContainerAlreadyExists'' msg
      then ([Stdout ''Received 409. Container already exists\<newline>''], Normal)
      else ([Log (Error e)], Fatal))"
  by (cases e)
     (simp_all add: handleErrors_def ServiceCodeContainerAlreadyExists_def say_def log_Fatal_def)

text \<open>
  C6. If the loaded credentials have an empty account name or an empty access key, the run
  ends by \<^verbatim>\<open>log.Fatal\<close> with the message of line 59, and its trace holds no call to the
  storage service.
\<close>

theorem empty_credentials_fatal:
  assumes "AzureStorageAccountName (credentials env) = []
           \<or> AzureStorageAccountKey (credentials env) = []"
  shows "\<exists>t. main env = Some (t, Fatal)
           \<and> filter is_network t = []
           \<and> last t = Log ''Either the AzureStorageAccountName or AzureStorageAccountKey variable is empty''"
proof -
  have chk: "check_credentials env =
      ([Log ''Either the AzureStorageAccountName or AzureStorageAccountKey variable is empty''], Fatal)"
    using assms by (auto simp: check_credentials_def log_Fatal_def)
  show ?thesis
    by (simp add: main_def before_listing_def load_credentials_def chk deferred_def run_defs
          split: option.splits)
qed

text \<open>The credentials file opens and is decoded, and its access key is empty.\<close>

theorem empty_credentials_fatal_witness:
  "(AzureStorageAccountName (credentials (example_env None [] None)) = []
      \<or> AzureStorageAccountKey (credentials (example_env None [] None)) = [])
   \<and> (\<exists>t. main (example_env None [] None) = Some (t, Fatal)
           \<and> filter is_network t = []
           \<and> last t = Log ''Either the AzureStorageAccountName or AzureStorageAccountKey variable is empty'')"
proof -
  have h: "AzureStorageAccountName (credentials (example_env None [] None)) = []
           \<or> AzureStorageAccountKey (credentials (example_env None [] None)) = []"
    by (simp add: credentials_def byteValue_def example_env_def)
  from h empty_credentials_fatal [OF h] show ?thesis by blast
qed

text \<open>
  C10. When \<^verbatim>\<open>credentials.json\<close> cannot be opened the program goes on: it prints the
  error, prints "Successfully loading credentials.json", reads the (nil) file and decodes
  nothing, dropping both errors, and terminates only at the check of the empty fields.
  The success message is printed whether or not the file opened.
\<close>

theorem open_failure_not_fatal:
  "(credentials_open env = Some e \<longrightarrow>
      main env = Some ([
        Stdout ''Azure Blob Storage quick start sample\<newline>'',
        OsOpen ''credentials.json'',
        Stdout (e @ ''\<newline>''),
        Stdout ''Successfully loading credentials.json\<newline>'',
        ReadAll ''credentials.json'',
        Log ''Either the AzureStorageAccountName or AzureStorageAccountKey variable is empty''],
        Fatal))
   \<and> load_credentials env =
       (OsOpen ''credentials.json''
          # (case credentials_open env of None \<Rightarrow> [] | Some e' \<Rightarrow> [Stdout (e' @ ''\<newline>'')])
          @ [Stdout ''Successfully loading credentials.json\<newline>'', ReadAll ''credentials.json''],
        Normal)"
  by (simp add: main_def before_listing_def load_credentials_def check_credentials_def
        credentials_def byteValue_def deferred_def run_defs split: option.splits)

text \<open>The file does not exist.\<close>

theorem open_failure_not_fatal_witness:
  "credentials_open (example_env (Some ''open credentials.json: no such file or directory'') ''a2V5'' None)
     = Some ''open credentials.json: no such file or directory''
   \<and> main (example_env (Some ''open credentials.json: no such file or directory'') ''a2V5'' None)
     = Some ([
      Stdout ''Azure Blob Storage quick start sample\<newline>'',
      OsOpen ''credentials.json'',
      Stdout ''open credentials.json: no such file or directory\<newline>'',
      Stdout ''Successfully loading credentials.json\<newline>'',
      ReadAll ''credentials.json'',
      Log ''Either the AzureStorageAccountName or AzureStorageAccountKey variable is empty''], Fatal)"
proof -
  have h: "credentials_open (example_env (Some ''open credentials.json: no such file or directory'') ''a2V5'' None)
     = Some ''open credentials.json: no such file or directory''"
    by (simp add: example_env_def)
  from h open_failure_not_fatal
    [of "example_env (Some ''open credentials.json: no such file or directory'') ''a2V5'' None"
        "''open credentials.json: no such file or directory''"]
  show ?thesis by simp
qed

text \<open>
  C9. The error returned by \<^verbatim>\<open>Download\<close> is never inspected: whatever it is, the run
  is the run with a nil error. \<^verbatim>\<open>Body\<close> is called on the response in every case, and the
  error handed to \<^verbatim>\<open>handleErrors\<close> is the one of reading the body.
\<close>

theorem download_error_never_inspected:
  "main (env\<lparr>blob_download := (resp, err)\<rparr>) = main (env\<lparr>blob_download := (resp, None)\<rparr>)
   \<and> download (env\<lparr>blob_download := (resp, err)\<rparr>) =
       steps [
         call (BlobDownload (containerName env) (fileName env) 0 CountToEnd),
         call (Body 20),
         (case resp of
            None \<Rightarrow> panic
          | Some r \<Rightarrow>
              andThen (call (ReadFrom (fst (read_body r 20))))
                (handleErrors (snd (read_body r 20))))]"
  by (simp add: main_def after_listing_def download_def case_prod_beta
        cong: prod.case_cong outcome.case_cong option.case_cong)

text \<open>
  C7, as the code has it. The result of the container's \<^verbatim>\<open>Delete\<close> is dropped: whatever
  error it returns, the run is the run in which it returns none, and the cleanup goes on
  to close and remove the local file and ends normally.
\<close>

theorem delete_error_ignored:
  "main (env\<lparr>container_delete := err\<rparr>) = main env
   \<and> cleanup (env\<lparr>container_delete := err\<rparr>) = (cleanup_trace env, Normal)"
  by (simp add: main_def cleanup_eq cong: prod.case_cong outcome.case_cong option.case_cong)

text \<open>
  C7 as stated fails: here \<^verbatim>\<open>Delete\<close> returns an error and the run ends normally, after
  the file was closed and removed.
\<close>

theorem delete_error_fatal_counterexample:
  "container_delete
     (example_env None ''a2V5''
        (Some (StorageError ''ContainerNotFound'' ''The specified container does not exist.'')))
     = Some (StorageError ''ContainerNotFound'' ''The specified container does not exist.'')
   \<and> main
     (example_env None ''a2V5''
        (Some (StorageError ''ContainerNotFound'' ''The specified container does not exist.'')))
     = Some (example_trace, Normal)
   \<and> drop 22 example_trace =
       [ContainerDelete ''quickstart-17'', FileClose ''42'', OsRemove ''42'',
        FileClose ''credentials.json'']"
  by (simp add: main_example_env) (simp add: example_env_def example_trace_def)

text \<open>
  C8. In every run, a deletion (of the container or of the local file) comes after the
  read of standard input, and no read of standard input comes after it: the read happens
  once, before both deletions.
\<close>

theorem cleanup_after_read:
  assumes "main env = Some (t, s)" and "t = xs @ e # ys" and "is_deletion e"
  shows "StdinReadBytes \<in> set xs \<and> StdinReadBytes \<notin> set ys
         \<and> length (filter (\<lambda>x. x = StdinReadBytes) t) = 1"
proof -
  have "\<not> quiet t" using assms(2,3) by simp
  with assms(1) have once: "length (filter (\<lambda>x. x = StdinReadBytes) t) = 1"
    by (rule main_reads_once)
  have g: "read_first False (xs @ e # ys)" using main_read_first assms(1,2) by blast
  from read_first_deletion [OF g assms(3)] have before: "StdinReadBytes \<in> set xs" by simp
  have "StdinReadBytes \<notin> set ys"
  proof
    assume "StdinReadBytes \<in> set ys"
    then obtain ys1 ys2 where "ys = ys1 @ StdinReadBytes # ys2"
      by (auto simp: in_set_conv_decomp)
    with g have "read_first False ((xs @ e # ys1) @ StdinReadBytes # ys2)" by simp
    from read_first_single [OF this] before show False by simp
  qed
  with before once show ?thesis by simp
qed

theorem cleanup_after_read_witness:
  "main (example_env None ''a2V5'' None) = Some (example_trace, Normal)
   \<and> example_trace = take 22 example_trace @ ContainerDelete ''quickstart-17'' # drop 23 example_trace
   \<and> is_deletion (ContainerDelete ''quickstart-17'')
   \<and> StdinReadBytes \<in> set (take 22 example_trace)
   \<and> StdinReadBytes \<notin> set (drop 23 example_trace)
   \<and> length (filter (\<lambda>x. x = StdinReadBytes) example_trace) = 1"
proof -
  have m: "main (example_env None ''a2V5'' None) = Some (example_trace, Normal)"
    by (rule main_example_env)
  have d: "example_trace =
      take 22 example_trace @ ContainerDelete ''quickstart-17'' # drop 23 example_trace"
    by (simp add: example_trace_def)
  have i: "is_deletion (ContainerDelete ''quickstart-17'')" by simp
  from m d i cleanup_after_read [OF m d i] show ?thesis by blast
qed

text \<open>
  C4. The listing loop calls the list operation with the zero-valued marker, then with the
  marker each response returned, and ends without a further call exactly when the marker
  is done. Against a service that pages the stable contents \<open>names\<close> of the container by
  \<open>K\<close> (any \<open>K > 0\<close>, so also \<open>K\<close> below the number of blobs), the run of the loop ends
  normally, prints each name once and in order, none skipped and none twice, and passes
  the markers for the offsets \<open>0, K, 2K, ...\<close>, one call for each page.
\<close>

theorem listing_complete:
  assumes "paginates (NotDone env) (list_blobs env) names K mk" and "0 < K"
  shows "(\<exists>t. list_container env
               = Some (Stdout ''Listing the blobs in the container:\<newline>'' # t, Normal)
            \<and> stdout_lines t = map blob_line names
            \<and> list_markers t = map (\<lambda>j. mk (j * K)) [0..<page_count (length names) K])
         \<and> (\<forall>n m. (list_loop (NotDone env) (list_blobs env) (containerName env) n m
                      = Some ([], Normal))
                   = (\<not> NotDone env m))"
proof -
  let ?P = "page_count (length names) K"
  let ?loop = "list_loop (NotDone env) (list_blobs env) (containerName env)"
  have z: "mk (0 * K) = None" using assms(1) by (simp add: paginates_def)
  have "?loop 0 (mk (0 * K))
      = Some (concat (map (page_events (containerName env) names K mk) [0..<?P]), Normal)"
    using list_loop_pages [OF assms page_count_pos] .
  moreover have "take (?P * K) names = names"
    using page_count_covers [OF assms(2), of "length names"] by simp
  ultimately have first: "\<exists>t. list_container env
               = Some (Stdout ''Listing the blobs in the container:\<newline>'' # t, Normal)
            \<and> stdout_lines t = map blob_line names
            \<and> list_markers t = map (\<lambda>j. mk (j * K)) [0..<?P]"
    using z by (simp add: list_container_def prepend_def stdout_lines_pages list_markers_pages)
  have "\<And>n m. (?loop n m = Some ([], Normal)) = (\<not> NotDone env m)"
    using list_loop_calls_first [of "NotDone env" _ "list_blobs env" "containerName env"]
      list_loop_done [of "NotDone env" _ "list_blobs env" "containerName env"]
    by blast
  with first show ?thesis by blast
qed

text \<open>Three blobs listed in pages of two: two calls, the second with the marker of offset 2.\<close>

theorem listing_complete_witness:
  "paginates (NotDone (paging_env [''a'', ''b'', ''c''] 2))
     (list_blobs (paging_env [''a'', ''b'', ''c''] 2)) [''a'', ''b'', ''c''] 2 (example_marker 3)
   \<and> (0::nat) < 2
   \<and> list_container (paging_env [''a'', ''b'', ''c''] 2)
       = Some ([Stdout ''Listing the blobs in the container:\<newline>'',
                ListBlobsFlatSegment ''quickstart-17'' None,
                Stdout '' Blob name: a\<newline>'',
                Stdout '' Blob name: b\<newline>'',
                ListBlobsFlatSegment ''quickstart-17'' (Some ''xx''),
                Stdout '' Blob name: c\<newline>''], Normal)
   \<and> (\<exists>t. list_container (paging_env [''a'', ''b'', ''c''] 2)
               = Some (Stdout ''Listing the blobs in the container:\<newline>'' # t, Normal)
         \<and> stdout_lines t = ['' Blob name: a\<newline>'', '' Blob name: b\<newline>'', '' Blob name: c\<newline>'']
         \<and> list_markers t = [None, Some ''xx''])
   \<and> list_loop (NotDone (paging_env [''a'', ''b'', ''c''] 2))
         (list_blobs (paging_env [''a'', ''b'', ''c''] 2))
         (containerName (paging_env [''a'', ''b'', ''c''] 2)) 2 (Some [])
        = Some ([], Normal)"
proof -
  let ?E = "paging_env [''a'', ''b'', ''c''] 2"
  have h: "paginates (NotDone ?E) (list_blobs ?E) [''a'', ''b'', ''c''] 2 (example_marker 3)"
    using example_paginates [of "[''a'', ''b'', ''c'']" 2]
    by (simp add: paging_env_def example_env_def numeral_3_eq_3)
  have k: "(0::nat) < 2" by simp
  have pc: "map (\<lambda>j. example_marker 3 (j * 2)) [0..<page_count (length [''a'', ''b'', ''c'']) 2]
      = [None, Some ''xx'']"
    by code_simp
  have nd: "\<not> NotDone ?E (Some [])"
    by (simp add: paging_env_def example_env_def example_NotDone_def)
  have bl: "map blob_line [''a'', ''b'', ''c'']
      = ['' Blob name: a\<newline>'', '' Blob name: b\<newline>'', '' Blob name: c\<newline>'']"
    by (simp add: blob_line_def)
  have run: "list_container ?E
       = Some ([Stdout ''Listing the blobs in the container:\<newline>'',
                ListBlobsFlatSegment ''quickstart-17'' None,
                Stdout '' Blob name: a\<newline>'',
                Stdout '' Blob name: b\<newline>'',
                ListBlobsFlatSegment ''quickstart-17'' (Some ''xx''),
                Stdout '' Blob name: c\<newline>''], Normal)"
    by (simp add: list_container_def paging_env_def example_env_def containerName_def
          example_listing_def example_marker_def example_NotDone_def list_loop_done
          list_loop_notDone handleErrors_def call_def prepend_def blob_line_def numeral_2_eq_2)
  from listing_complete [OF h k] h k nd run show ?thesis
    unfolding pc bl by blast
qed

text \<open>
  C3. The upload workflow, for a payload \<open>P\<close>, a block size and a parallelism above 0: a
  payload of at most \<open>threshold\<close> bytes is one direct write. A larger one is split into
  \<open>ceil(S/B)\<close> blocks of at most \<open>B\<close> bytes that concatenate to \<open>P\<close>; every block is uploaded
  once, in an order the scheduler decides, with never more uploads in flight than the
  parallelism (and as many as that when there are enough blocks); one commit request
  follows and lists the blocks in the original order, so that whatever the order of
  completion the blob committed is \<open>P\<close>. The program passes the block size 4 MiB and the
  parallelism 16.
\<close>

theorem upload_chunking:
  assumes "0 < blockSize" and "0 < parallelism"
  shows "(length P \<le> threshold \<longrightarrow>
            Upload_requests threshold blockSize parallelism choices name P = [PutBlob name P])
   \<and> (threshold < length P \<longrightarrow>
        Upload_requests threshold blockSize parallelism choices name P
          = map (\<lambda>i. PutBlock name i (split_blocks blockSize P ! i))
              (completion_order
                 (run_pool parallelism [0..<length (split_blocks blockSize P)] [] choices))
            @ [PutBlockList name [0..<length (split_blocks blockSize P)]]
        \<and> length (split_blocks blockSize P) = (length P + blockSize - 1) div blockSize
        \<and> (\<forall>b \<in> set (split_blocks blockSize P). length b \<le> blockSize)
        \<and> concat (split_blocks blockSize P) = P
        \<and> distinct (completion_order
             (run_pool parallelism [0..<length (split_blocks blockSize P)] [] choices))
        \<and> set (completion_order
             (run_pool parallelism [0..<length (split_blocks blockSize P)] [] choices))
            = {0..<length (split_blocks blockSize P)}
        \<and> max_in_flight 0
             (run_pool parallelism [0..<length (split_blocks blockSize P)] [] choices)
            = min parallelism (length (split_blocks blockSize P)))
   \<and> (\<exists>st'. Upload_workflow st threshold blockSize parallelism choices name P = Some st'
           \<and> committed st' = (committed st)(name \<mapsto> P))
   \<and> fst (upload env) ! 1
       = UploadFileToBlockBlob (containerName env) (fileName env) (4 * 1024 * 1024) 16"
proof -
  let ?n = "length (split_blocks blockSize P)"
  have pool: "set (completion_order (run_pool parallelism [0..<?n] [] choices)) = {0..<?n}
      \<and> distinct (completion_order (run_pool parallelism [0..<?n] [] choices))"
    using run_pool_completes [OF assms(2), of "[0..<?n]" "[]" choices] by simp
  have width: "max_in_flight 0 (run_pool parallelism [0..<?n] [] choices) = min parallelism ?n"
    using run_pool_width [of "[]" parallelism "[0..<?n]" choices] by simp
  have stage: "fst (upload env) ! 1
       = UploadFileToBlockBlob (containerName env) (fileName env) (4 * 1024 * 1024) 16"
    by (simp add: upload_def say_def call_def)
  show ?thesis
    using pool width stage split_blocks_length [OF assms(1), of P]
      split_blocks_concat [OF assms(1), of P] split_blocks_bound [of _ blockSize P]
      Upload_workflow_commits [OF assms, of st threshold choices name P]
    by (simp add: Upload_requests_def)
qed

theorem upload_chunking_witness:
  "(0::nat) < 2
   \<and> length ''hi'' \<le> 3
   \<and> Upload_requests 3 2 2 [1] ''b'' ''hi'' = [PutBlob ''b'' ''hi'']
   \<and> 3 < length ''hello''
   \<and> Upload_requests 3 2 2 [1] ''b'' ''hello''
       = [PutBlock ''b'' 1 ''ll'', PutBlock ''b'' 0 ''he'', PutBlock ''b'' 2 ''o'',
          PutBlockList ''b'' [0, 1, 2]]
   \<and> split_blocks 2 ''hello'' = [''he'', ''ll'', ''o'']
   \<and> length (split_blocks 2 ''hello'') = (length ''hello'' + 2 - 1) div 2
   \<and> max_in_flight 0 (run_pool 2 [0..<length (split_blocks 2 ''hello'')] [] [1])
       = min 2 (length (split_blocks 2 ''hello''))
   \<and> (\<exists>st'. Upload_workflow empty_storage 3 2 2 [1] ''b'' ''hello'' = Some st'
          \<and> committed st' = (committed empty_storage)(''b'' \<mapsto> ''hello''))
   \<and> fst (upload (example_env None ''a2V5'' None)) ! 1
       = UploadFileToBlockBlob ''quickstart-17'' ''42'' 4194304 16"
proof -
  have k: "(0::nat) < 2" by simp
  have small: "length ''hi'' \<le> 3" by simp
  have large: "3 < length ''hello''" by simp
  have blocks: "split_blocks 2 ''hello'' = [''he'', ''ll'', ''o'']" by code_simp
  have reqs: "Upload_requests 3 2 2 [1] ''b'' ''hello''
       = [PutBlock ''b'' 1 ''ll'', PutBlock ''b'' 0 ''he'', PutBlock ''b'' 2 ''o'',
          PutBlockList ''b'' [0, 1, 2]]" by code_simp
  note t1 = upload_chunking [OF k k, where P = "''hi''" and threshold = 3 and choices = "[1]"
      and name = "''b''" and st = empty_storage and env = "example_env None ''a2V5'' None"]
  note t2 = upload_chunking [OF k k, where P = "''hello''" and threshold = 3 and choices = "[1]"
      and name = "''b''" and st = empty_storage and env = "example_env None ''a2V5'' None"]
  from t1 small have c1: "Upload_requests 3 2 2 [1] ''b'' ''hi'' = [PutBlob ''b'' ''hi'']" by blast
  from t2 large have c2: "length (split_blocks 2 ''hello'') = (length ''hello'' + 2 - 1) div 2"
    and c3: "max_in_flight 0 (run_pool 2 [0..<length (split_blocks 2 ''hello'')] [] [1])
       = min 2 (length (split_blocks 2 ''hello''))"
    by blast+
  from t2 have c4: "\<exists>st'. Upload_workflow empty_storage 3 2 2 [1] ''b'' ''hello'' = Some st'
          \<and> committed st' = (committed empty_storage)(''b'' \<mapsto> ''hello'')" by blast
  from t2 have c5: "fst (upload (example_env None ''a2V5'' None)) ! 1
       = UploadFileToBlockBlob ''quickstart-17'' ''42'' 4194304 16"
    by (simp add: example_names)
  from k small large blocks reqs c1 c2 c3 c4 c5 show ?thesis by blast
qed

text \<open>
  C1. Round trip: for every payload \<open>P\<close>, at or below the single-request threshold or
  above it, the upload workflow on \<open>P\<close> succeeds, and the download workflow on the same blob
  name, from offset 0 to the end, read to completion (with connection drops within the
  retry budget) yields exactly \<open>P\<close> and no error.
\<close>

theorem upload_download_roundtrip:
  assumes "0 < blockSize" and "0 < parallelism" and "length drops \<le> retries"
  shows "\<exists>st' stream.
           Upload_workflow st threshold blockSize parallelism choices name P = Some st'
           \<and> Download_workflow st' name 0 CountToEnd drops = Some stream
           \<and> snd (stream retries) = (P, None)"
proof -
  from Upload_workflow_commits [OF assms(1,2), of st threshold choices name P]
  obtain st' where u: "Upload_workflow st threshold blockSize parallelism choices name P = Some st'"
    and c: "committed st' = (committed st)(name \<mapsto> P)" by blast
  have "snd (retry_read P 0 retries drops) = (P, None)"
    using retry_read_within_budget [OF assms(3), of P 0] by simp
  with u c show ?thesis by (simp add: Download_workflow_def blob_range_def)
qed

theorem upload_download_roundtrip_witness:
  "(0::nat) < 2
   \<and> length [2::nat, 1] \<le> 20
   \<and> length ''hi'' \<le> 3
   \<and> (\<exists>st' stream.
         Upload_workflow empty_storage 3 2 2 [1] ''b'' ''hi'' = Some st'
         \<and> Download_workflow st' ''b'' 0 CountToEnd [2, 1] = Some stream
         \<and> snd (stream 20) = (''hi'', None))
   \<and> 3 < length ''hello''
   \<and> (\<exists>st' stream.
         Upload_workflow empty_storage 3 2 2 [1] ''b'' ''hello'' = Some st'
         \<and> Download_workflow st' ''b'' 0 CountToEnd [2, 1] = Some stream
         \<and> snd (stream 20) = (''hello'', None))"
proof -
  have k: "(0::nat) < 2" by simp
  have d: "length [2::nat, 1] \<le> 20" by simp
  note t1 = upload_download_roundtrip [OF k k d, where P = "''hi''" and threshold = 3
      and choices = "[1]" and name = "''b''" and st = empty_storage]
  note t2 = upload_download_roundtrip [OF k k d, where P = "''hello''" and threshold = 3
      and choices = "[1]" and name = "''b''" and st = empty_storage]
  from k d t1 t2 show ?thesis by simp
qed

text \<open>
  C5. The program calls \<^verbatim>\<open>Download\<close> with offset 0 and count to-end, and \<^verbatim>\<open>Body\<close> with a
  maximum of 20 retries. The stream of the download workflow issues the range request
  again after each drop of the connection, from the offset delivered so far, and never
  more than the maximum of retries plus one requests in all; with no more drops than
  retries the caller receives the whole content and no error; with more, the read fails
  with \<open>DownloadFailed\<close> after the bytes delivered so far, which the program's error
  handler makes fatal.
\<close>

theorem download_retries:
  assumes "committed st name = Some content"
  shows "take 2 (fst (download env))
           = [BlobDownload (containerName env) (fileName env) 0 CountToEnd, Body 20]
    \<and> (\<exists>stream. Download_workflow st name 0 CountToEnd drops = Some stream
         \<and> (length drops \<le> retries \<longrightarrow> snd (stream retries) = (content, None))
         \<and> (retries < length drops \<and> sum_list (take (Suc retries) drops) < length content \<longrightarrow>
              snd (stream retries)
                = (take (sum_list (take (Suc retries) drops)) content, Some DownloadFailed))
         \<and> fst (stream retries)
             = map (\<lambda>k. sum_list (take k drops)) [0..<length (fst (stream retries))]
         \<and> length (fst (stream retries)) \<le> Suc retries
         \<and> (length drops \<le> 20 \<longrightarrow>
              download (env\<lparr>blob_download := (Some (stream_response stream), None)\<rparr>)
                = ([BlobDownload (containerName env) (fileName env) 0 CountToEnd, Body 20,
                    ReadFrom content], Normal))
         \<and> (20 < length drops \<and> sum_list (take 21 drops) < length content \<longrightarrow>
              download (env\<lparr>blob_download := (Some (stream_response stream), None)\<rparr>)
                = ([BlobDownload (containerName env) (fileName env) 0 CountToEnd, Body 20,
                    ReadFrom (take (sum_list (take 21 drops)) content),
                    Log ''DownloadFailed''], Fatal)))"
proof -
  let ?stream = "\<lambda>retries. retry_read content 0 retries drops"
  have d: "Download_workflow st name 0 CountToEnd drops = Some ?stream"
    using assms by (simp add: Download_workflow_def blob_range_def)
  have ok: "\<And>r. length drops \<le> r \<Longrightarrow> snd (?stream r) = (content, None)"
    using retry_read_within_budget [of drops _ content 0] by simp
  have ex: "\<And>r. r < length drops \<Longrightarrow> sum_list (take (Suc r) drops) < length content \<Longrightarrow>
      snd (?stream r) = (take (sum_list (take (Suc r) drops)) content, Some DownloadFailed)"
    using retry_read_exhausted [of _ drops content 0] by simp
  have offs: "fst (?stream retries)
             = map (\<lambda>k. sum_list (take k drops)) [0..<length (fst (?stream retries))]
         \<and> length (fst (?stream retries)) \<le> Suc retries"
    using retry_read_offsets [of content 0 retries drops] by simp
  have stage: "take 2 (fst (download env))
           = [BlobDownload (containerName env) (fileName env) 0 CountToEnd, Body 20]"
    by (simp add: download_def call_def)
  have run_ok: "length drops \<le> 20 \<Longrightarrow>
      download (env\<lparr>blob_download := (Some (stream_response ?stream), None)\<rparr>)
        = ([BlobDownload (containerName env) (fileName env) 0 CountToEnd, Body 20,
            ReadFrom content], Normal)"
    using ok [of 20]
    by (cases "retry_read content 0 20 drops")
       (simp add: download_def stream_response_def call_def handleErrors_def)
  have run_ex: "20 < length drops \<Longrightarrow> sum_list (take 21 drops) < length content \<Longrightarrow>
      download (env\<lparr>blob_download := (Some (stream_response ?stream), None)\<rparr>)
        = ([BlobDownload (containerName env) (fileName env) 0 CountToEnd, Body 20,
            ReadFrom (take (sum_list (take 21 drops)) content), Log ''DownloadFailed''], Fatal)"
    using ex [of 20]
    by (cases "retry_read content 0 20 drops")
       (simp add: download_def stream_response_def call_def handleErrors_def log_Fatal_def)
  show ?thesis
    using d ok ex offs stage run_ok run_ex by (intro conjI exI [of _ ?stream]) simp_all
qed

theorem download_retries_witness:
  "committed example_storage ''42'' = Some ''hello world''
   \<and> take 2 (fst (download (example_env None ''a2V5'' None)))
       = [BlobDownload ''quickstart-17'' ''42'' 0 CountToEnd, Body 20]
   \<and> length [2::nat, 3] \<le> 20
   \<and> (\<exists>stream. Download_workflow example_storage ''42'' 0 CountToEnd [2, 3] = Some stream
         \<and> stream 20 = ([0, 2, 5], ''hello world'', None)
         \<and> download (example_env None ''a2V5'' None
                       \<lparr>blob_download := (Some (stream_response stream), None)\<rparr>)
             = ([BlobDownload ''quickstart-17'' ''42'' 0 CountToEnd, Body 20,
                 ReadFrom ''hello world''], Normal))
   \<and> 1 < length [2::nat, 3, 1]
   \<and> sum_list (take (Suc 1) [2::nat, 3, 1]) < length ''hello world''
   \<and> (\<exists>stream. Download_workflow example_storage ''42'' 0 CountToEnd [2, 3, 1] = Some stream
         \<and> stream 1 = ([0, 2], ''hello'', Some DownloadFailed))
   \<and> 20 < length (replicate 21 (0::nat))
   \<and> sum_list (take 21 (replicate 21 (0::nat))) < length ''hello world''
   \<and> (\<exists>stream. Download_workflow example_storage ''42'' 0 CountToEnd (replicate 21 0) = Some stream
         \<and> download (example_env None ''a2V5'' None
                       \<lparr>blob_download := (Some (stream_response stream), None)\<rparr>)
             = ([BlobDownload ''quickstart-17'' ''42'' 0 CountToEnd, Body 20, ReadFrom [],
                 Log ''DownloadFailed''], Fatal))"
proof -
  let ?E = "example_env None ''a2V5'' None"
  have h: "committed example_storage ''42'' = Some ''hello world''"
    by (simp add: example_storage_def)
  have b1: "length [2::nat, 3] \<le> 20" by simp
  have b2: "1 < length [2::nat, 3, 1]" by simp
  have b3: "sum_list (take (Suc 1) [2::nat, 3, 1]) < length ''hello world''" by simp
  from download_retries [OF h, where drops = "[2, 3]" and retries = 20 and env = ?E]
  obtain s1 where
    s1: "Download_workflow example_storage ''42'' 0 CountToEnd [2, 3] = Some s1"
    and r1: "snd (s1 20) = (''hello world'', None)"
    and o1: "fst (s1 20) = map (\<lambda>k. sum_list (take k [2, 3])) [0..<length (fst (s1 20))]"
    and d1: "download (?E\<lparr>blob_download := (Some (stream_response s1), None)\<rparr>)
        = ([BlobDownload (containerName ?E) (fileName ?E) 0 CountToEnd, Body 20,
            ReadFrom ''hello world''], Normal)"
    and st: "take 2 (fst (download ?E))
        = [BlobDownload (containerName ?E) (fileName ?E) 0 CountToEnd, Body 20]"
    using b1 by auto
  have e1: "s1 = (\<lambda>retries. retry_read ''hello world'' 0 retries [2, 3])"
    using s1 h by (simp add: Download_workflow_def blob_range_def)
  have v1: "retry_read ''hello world'' 0 20 [2, 3] = ([0, 2, 5], ''hello world'', None)"
    by code_simp
  from download_retries [OF h, where drops = "[2, 3, 1]" and retries = 1 and env = ?E]
  obtain s2 where
    s2: "Download_workflow example_storage ''42'' 0 CountToEnd [2, 3, 1] = Some s2"
    and r2: "snd (s2 1) = (take (sum_list (take (Suc 1) [2, 3, 1])) ''hello world'', Some DownloadFailed)"
    using b2 b3 by auto
  have e2: "s2 = (\<lambda>retries. retry_read ''hello world'' 0 retries [2, 3, 1])"
    using s2 h by (simp add: Download_workflow_def blob_range_def)
  have v2: "retry_read ''hello world'' 0 1 [2, 3, 1] = ([0, 2], ''hello'', Some DownloadFailed)"
    by code_simp
  have b4: "20 < length (replicate 21 (0::nat))" by simp
  have b5: "sum_list (take 21 (replicate 21 (0::nat))) < length ''hello world''"
    by (simp add: sum_list_replicate)
  from download_retries [OF h, where drops = "replicate 21 0" and retries = 20 and env = ?E]
  obtain s3 where
    s3: "Download_workflow example_storage ''42'' 0 CountToEnd (replicate 21 0) = Some s3"
    and d3: "download (?E\<lparr>blob_download := (Some (stream_response s3), None)\<rparr>)
        = ([BlobDownload (containerName ?E) (fileName ?E) 0 CountToEnd, Body 20,
            ReadFrom (take (sum_list (take 21 (replicate 21 0))) ''hello world''),
            Log ''DownloadFailed''], Fatal)"
    using b4 b5 by auto
  have z: "take (sum_list (take 21 (replicate 21 (0::nat)))) ''hello world'' = []"
    by (simp add: sum_list_replicate)
  have first: "committed example_storage ''42'' = Some ''hello world''
   \<and> take 2 (fst (download ?E)) = [BlobDownload ''quickstart-17'' ''42'' 0 CountToEnd, Body 20]
   \<and> length [2::nat, 3] \<le> 20
   \<and> (\<exists>stream. Download_workflow example_storage ''42'' 0 CountToEnd [2, 3] = Some stream
         \<and> stream 20 = ([0, 2, 5], ''hello world'', None)
         \<and> download (?E\<lparr>blob_download := (Some (stream_response stream), None)\<rparr>)
             = ([BlobDownload ''quickstart-17'' ''42'' 0 CountToEnd, Body 20,
                 ReadFrom ''hello world''], Normal))
   \<and> 1 < length [2::nat, 3, 1]
   \<and> sum_list (take (Suc 1) [2::nat, 3, 1]) < length ''hello world''
   \<and> (\<exists>stream. Download_workflow example_storage ''42'' 0 CountToEnd [2, 3, 1] = Some stream
         \<and> stream 1 = ([0, 2], ''hello'', Some DownloadFailed))"
    using h b1 b2 b3 s1 s2 d1 st e1 e2 v1 v2 by (simp add: example_names)
  have last: "\<exists>stream. Download_workflow example_storage ''42'' 0 CountToEnd (replicate 21 0) = Some stream
         \<and> download (?E\<lparr>blob_download := (Some (stream_response stream), None)\<rparr>)
             = ([BlobDownload ''quickstart-17'' ''42'' 0 CountToEnd, Body 20, ReadFrom [],
                 Log ''DownloadFailed''], Fatal)"
    using s3 d3 unfolding z by (simp add: example_names)
  from first b4 b5 last show ?thesis by blast
qed

end
